theory Spec2Isabelle
  imports Complex_Main "HOL-Library.Multiset" "HOL-Library.Char_ord" "HOL-Library.List_Lexorder"
begin

section \<open>JavaScript values and string primitives used by the processor\<close>

text \<open>
  A JavaScript string is modelled as a \<open>string\<close>: a list of code units, each below 256
  (the Latin-1 range). Code units above that range are outside the model.
\<close>

text \<open>
  The raw value of a cell as the decoded sheet delivers it (\<open>any\<close> in the source):
  \<open>undefined\<close> (absent), \<open>null\<close>, a string, a number or a boolean. Numbers are the
  integer-valued ones; fractions, infinities and NaN are floating point and outside the model.
\<close>

datatype raw = Undefined | Null | Str string | Num int | Bool bool

text \<open>A row object: reading a property the object does not have gives \<open>undefined\<close>.\<close>

type_synonym rowObject = "string \<Rightarrow> raw"

definition isWhiteSpace :: "char \<Rightarrow> bool" where
  \<comment> \<open>the code units below 256 that \<open>trim\<close> strips and \<open>\s\<close> matches:
      TAB, LF, VT, FF, CR, SPACE, NBSP\<close>
  "isWhiteSpace c = ((of_char c :: nat) \<in> {9, 10, 11, 12, 13, 32, 160})"

definition isDigit :: "char \<Rightarrow> bool" where
  \<comment> \<open>\<open>\d\<close>: the ASCII digits\<close>
  "isDigit c = (48 \<le> (of_char c :: nat) \<and> (of_char c :: nat) \<le> 57)"

definition trim :: "string \<Rightarrow> string" where
  "trim s = rev (dropWhile isWhiteSpace (rev (dropWhile isWhiteSpace s)))"

definition lowerChar :: "char \<Rightarrow> char" where
  \<comment> \<open>A-Z and the Latin-1 capitals U+00C0..U+00DE (without the multiplication sign U+00D7)
      move up by 32; every other code unit below 256 is unchanged\<close>
  "lowerChar c =
     (let n = (of_char c :: nat)
      in if (65 \<le> n \<and> n \<le> 90) \<or> (192 \<le> n \<and> n \<le> 222 \<and> n \<noteq> 215)
         then char_of (n + 32) else c)"

definition toLowerCase :: "string \<Rightarrow> string" where
  "toLowerCase s = map lowerChar s"

fun startsWith :: "string \<Rightarrow> string \<Rightarrow> bool" where
  "startsWith s [] = True"
| "startsWith [] (p # ps) = False"
| "startsWith (c # cs) (p # ps) = (c = p \<and> startsWith cs ps)"

fun includes_str :: "string \<Rightarrow> string \<Rightarrow> bool" where
  \<comment> \<open>\<open>s.includes(sub)\<close>: \<open>sub\<close> occurs in \<open>s\<close> as a contiguous run\<close>
  "includes_str [] sub = (sub = [])"
| "includes_str (c # cs) sub = (startsWith (c # cs) sub \<or> includes_str cs sub)"

definition digitChar :: "nat \<Rightarrow> char" where
  "digitChar d = char_of (48 + d)"

fun natToString :: "nat \<Rightarrow> string" where
  "natToString n =
     (if n < 10 then [digitChar n] else natToString (n div 10) @ [digitChar (n mod 10)])"

declare natToString.simps [simp del]

definition numberToString :: "int \<Rightarrow> string" where
  \<comment> \<open>\<open>String(n)\<close> of an integer-valued number: plain decimal (JavaScript prints it so up to
      a magnitude of 10^21)\<close>
  "numberToString i =
     (if i < 0 then CHR ''-'' # natToString (nat (- i)) else natToString (nat i))"

fun toStr :: "raw \<Rightarrow> string" where
  \<comment> \<open>\<open>String(value)\<close>\<close>
  "toStr Undefined = ''undefined''"
| "toStr Null = ''null''"
| "toStr (Str s) = s"
| "toStr (Num i) = numberToString i"
| "toStr (Bool b) = (if b then ''true'' else ''false'')"

fun truthy :: "raw \<Rightarrow> bool" where
  \<comment> \<open>JavaScript truthiness, which decides \<open>value || ''\<close>\<close>
  "truthy Undefined = False"
| "truthy Null = False"
| "truthy (Str s) = (s \<noteq> [])"
| "truthy (Num i) = (i \<noteq> 0)"
| "truthy (Bool b) = b"

definition orEmpty :: "raw \<Rightarrow> raw" where
  \<comment> \<open>\<open>value || ''\<close>\<close>
  "orEmpty v = (if truthy v then v else Str [])"

section \<open>Cell addresses\<close>

text \<open>
  \<^verbatim>\<open>
  let result = '';
  while (col >= 0) {
    result = String.fromCharCode(65 + (col % 26)) + result;
    col = Math.floor(col / 26) - 1;
  }
  return result + (row + 1);
  \<close>
\<close>

function columnLoop :: "int \<Rightarrow> string \<Rightarrow> string" where
  "columnLoop col result =
     (if col \<ge> 0
      then columnLoop (col div 26 - 1) (char_of (65 + col mod 26) # result)
      else result)"
  by pat_completeness auto
termination
  by (relation "measure (\<lambda>(col, result). nat (col + 1))") auto

declare columnLoop.simps [simp del]

definition getCellAddress :: "int \<Rightarrow> int \<Rightarrow> string" where
  "getCellAddress row col = columnLoop col [] @ numberToString (row + 1)"

section \<open>Regular expressions of the validators\<close>

text \<open>
  The two patterns of the source are anchored at both ends and have no flags, so
  \<open>regex.test(s)\<close> asks whether the whole of \<open>s\<close> matches. Matching is by derivatives.
\<close>

datatype rexp = Zero | One | Cls "char \<Rightarrow> bool" | Alt rexp rexp | Seq rexp rexp | Star rexp

definition Plus :: "rexp \<Rightarrow> rexp" where
  \<comment> \<open>\<open>r+\<close>\<close>
  "Plus r = Seq r (Star r)"

fun Times :: "nat \<Rightarrow> rexp \<Rightarrow> rexp" where
  \<comment> \<open>\<open>r{n}\<close>\<close>
  "Times 0 r = One"
| "Times (Suc n) r = Seq r (Times n r)"

fun nullable :: "rexp \<Rightarrow> bool" where
  "nullable Zero = False"
| "nullable One = True"
| "nullable (Cls p) = False"
| "nullable (Alt r s) = (nullable r \<or> nullable s)"
| "nullable (Seq r s) = (nullable r \<and> nullable s)"
| "nullable (Star r) = True"

fun deriv :: "char \<Rightarrow> rexp \<Rightarrow> rexp" where
  "deriv c Zero = Zero"
| "deriv c One = Zero"
| "deriv c (Cls p) = (if p c then One else Zero)"
| "deriv c (Alt r s) = Alt (deriv c r) (deriv c s)"
| "deriv c (Seq r s) =
     (if nullable r then Alt (Seq (deriv c r) s) (deriv c s) else Seq (deriv c r) s)"
| "deriv c (Star r) = Seq (deriv c r) (Star r)"

definition test :: "rexp \<Rightarrow> string \<Rightarrow> bool" where
  \<comment> \<open>\<open>/^r$/.test(s)\<close>\<close>
  "test r s = nullable (fold deriv s r)"

section \<open>Field validators\<close>

definition notSpaceOrAt :: "char \<Rightarrow> bool" where
  \<comment> \<open>\<open>[^\s@]\<close>\<close>
  "notSpaceOrAt c = (\<not> isWhiteSpace c \<and> c \<noteq> CHR ''@'')"

definition emailRegex :: rexp where
  \<comment> \<open>\<open>/^[^\s@]+@[^\s@]+\.[^\s@]+$/\<close>\<close>
  "emailRegex =
     Seq (Plus (Cls notSpaceOrAt))
       (Seq (Cls (\<lambda>c. c = CHR ''@''))
         (Seq (Plus (Cls notSpaceOrAt))
           (Seq (Cls (\<lambda>c. c = CHR ''.''))
             (Plus (Cls notSpaceOrAt)))))"

definition validateEmail :: "string \<Rightarrow> bool" where
  "validateEmail email = test emailRegex email"

definition phoneRegex :: rexp where
  \<comment> \<open>\<open>/^\d{10}$/\<close>\<close>
  "phoneRegex = Times 10 (Cls isDigit)"

definition validatePhone :: "string \<Rightarrow> bool" where
  \<comment> \<open>\<open>phone.replace(/\D/g, '')\<close> deletes every code unit that is not a digit\<close>
  "validatePhone phone = test phoneRegex (filter isDigit phone)"

text \<open>
  \<open>new Date(dateStr)\<close> falls back to a parser the language leaves to the engine, so whether
  a string parses as a date is a parameter \<open>parsesAsDate\<close> of the model
  (\<open>!isNaN(new Date(s).getTime())\<close>).
\<close>

definition validateDate :: "(string \<Rightarrow> bool) \<Rightarrow> string \<Rightarrow> bool" where
  "validateDate parsesAsDate dateStr = (if dateStr = [] then False else parsesAsDate dateStr)"

text \<open>
  \<open>Number(value)\<close> on a string: surrounding white space is dropped, the empty string is 0,
  and what is left must be a numeric literal of the language (a signed decimal literal with
  optional fraction and exponent, \<open>Infinity\<close>, or an unsigned binary, octal or hexadecimal
  integer); anything else is NaN. A literal whose value rounds beyond the largest double is
  an infinity. The model keeps the exact value of a finite literal.
\<close>

datatype number = NaN | PosInfinity | NegInfinity | Finite rat

definition isHexDigit :: "char \<Rightarrow> bool" where
  "isHexDigit c =
     (let n = (of_char c :: nat)
      in (48 \<le> n \<and> n \<le> 57) \<or> (65 \<le> n \<and> n \<le> 70) \<or> (97 \<le> n \<and> n \<le> 102))"

definition isOctalDigit :: "char \<Rightarrow> bool" where
  "isOctalDigit c = (48 \<le> (of_char c :: nat) \<and> (of_char c :: nat) \<le> 55)"

definition isBinaryDigit :: "char \<Rightarrow> bool" where
  "isBinaryDigit c = (c = CHR ''0'' \<or> c = CHR ''1'')"

definition digitValue :: "char \<Rightarrow> int" where
  "digitValue c =
     (let n = (of_char c :: int)
      in if n \<le> 57 then n - 48 else if n \<le> 70 then n - 55 else n - 87)"

definition digitsToInt :: "int \<Rightarrow> string \<Rightarrow> int" where
  "digitsToInt base ds = foldl (\<lambda>a c. a * base + digitValue c) 0 ds"

definition overflowBound :: rat where
  \<comment> \<open>half-way between the largest double and 2^1024: from here on rounding gives infinity\<close>
  "overflowBound = 2 ^ 1024 - 2 ^ 970"

definition roundNumber :: "rat \<Rightarrow> number" where
  "roundNumber q =
     (if q \<ge> overflowBound then PosInfinity
      else if q \<le> - overflowBound then NegInfinity
      else Finite q)"

definition decimalDigits :: "string \<Rightarrow> int option" where
  "decimalDigits s = (if s \<noteq> [] \<and> list_all isDigit s then Some (digitsToInt 10 s) else None)"

definition signedInteger :: "string \<Rightarrow> int option" where
  "signedInteger s =
     (if s \<noteq> [] \<and> hd s = CHR ''+'' then decimalDigits (tl s)
      else if s \<noteq> [] \<and> hd s = CHR ''-'' then map_option uminus (decimalDigits (tl s))
      else decimalDigits s)"

definition exponentPart :: "string \<Rightarrow> int option" where
  \<comment> \<open>what follows the mantissa: nothing (exponent 0), or \<open>e\<close>/\<open>E\<close> and a signed integer\<close>
  "exponentPart s =
     (if s = [] then Some 0
      else if hd s = CHR ''e'' \<or> hd s = CHR ''E'' then signedInteger (tl s)
      else None)"

definition scale10 :: "rat \<Rightarrow> int \<Rightarrow> rat" where
  "scale10 m e = (if e \<ge> 0 then m * 10 ^ nat e else m / 10 ^ nat (- e))"

definition strUnsignedDecimalLiteral :: "string \<Rightarrow> number" where
  "strUnsignedDecimalLiteral s =
     (if s = ''Infinity'' then PosInfinity
      else
        let ip = takeWhile isDigit s;
            r1 = dropWhile isDigit s;
            dot = (r1 \<noteq> [] \<and> hd r1 = CHR ''.'');
            fp = (if dot then takeWhile isDigit (tl r1) else []);
            r2 = (if dot then dropWhile isDigit (tl r1) else r1)
        in if ip = [] \<and> fp = [] then NaN
           else (case exponentPart r2 of
                   None \<Rightarrow> NaN
                 | Some e \<Rightarrow>
                     roundNumber (scale10 (of_int (digitsToInt 10 (ip @ fp))) (e - int (length fp)))))"

fun negate :: "number \<Rightarrow> number" where
  "negate NaN = NaN"
| "negate PosInfinity = NegInfinity"
| "negate NegInfinity = PosInfinity"
| "negate (Finite q) = Finite (- q)"

definition strDecimalLiteral :: "string \<Rightarrow> number" where
  "strDecimalLiteral s =
     (if s \<noteq> [] \<and> hd s = CHR ''+'' then strUnsignedDecimalLiteral (tl s)
      else if s \<noteq> [] \<and> hd s = CHR ''-'' then negate (strUnsignedDecimalLiteral (tl s))
      else strUnsignedDecimalLiteral s)"

definition nonDecimalIntegerLiteral :: "string \<Rightarrow> number option" where
  \<comment> \<open>\<open>0x\<close>, \<open>0o\<close>, \<open>0b\<close> (either case) and at least one digit of that base\<close>
  "nonDecimalIntegerLiteral s =
     (case s of
        z # p # ds \<Rightarrow>
          if z = CHR ''0'' \<and> ds \<noteq> [] then
            if (p = CHR ''x'' \<or> p = CHR ''X'') \<and> list_all isHexDigit ds
              then Some (roundNumber (of_int (digitsToInt 16 ds)))
            else if (p = CHR ''o'' \<or> p = CHR ''O'') \<and> list_all isOctalDigit ds
              then Some (roundNumber (of_int (digitsToInt 8 ds)))
            else if (p = CHR ''b'' \<or> p = CHR ''B'') \<and> list_all isBinaryDigit ds
              then Some (roundNumber (of_int (digitsToInt 2 ds)))
            else None
          else None
      | _ \<Rightarrow> None)"

definition Number :: "string \<Rightarrow> number" where
  "Number value =
     (let t = trim value
      in if t = [] then Finite 0
         else (case nonDecimalIntegerLiteral t of
                 Some n \<Rightarrow> n
               | None \<Rightarrow> strDecimalLiteral t))"

fun isNaN :: "number \<Rightarrow> bool" where
  "isNaN NaN = True"
| "isNaN n = False"

fun isFinite :: "number \<Rightarrow> bool" where
  "isFinite (Finite q) = True"
| "isFinite n = False"

definition validateNumeric :: "string \<Rightarrow> bool" where
  "validateNumeric value = (\<not> isNaN (Number value) \<and> isFinite (Number value))"

section \<open>Row validation\<close>

datatype errorType = phone | email | blank | numeric | date | unique

record ValidationError =
  cellAddress :: string
  row :: int
  column :: string
  message :: string
  type :: errorType

text \<open>
  The callback of \<open>headers.forEach\<close> in \<open>validateRow\<close>, for one header and its index;
  \<open>errors.push\<close> appends to the list the callback is given. The blank check returns early.
\<close>

definition validateCell ::
  "(string \<Rightarrow> bool) \<Rightarrow> rowObject \<Rightarrow> nat \<Rightarrow> string \<Rightarrow> nat \<Rightarrow> ValidationError list
     \<Rightarrow> ValidationError list" where
  "validateCell parsesAsDate rowData rowIndex header colIndex errors =
     (let value = rowData header;
          cellAddress = getCellAddress (int rowIndex + 1) (int colIndex)
      in if value = Undefined \<or> value = Null \<or> value = Str []
         then errors @ [\<lparr>cellAddress = cellAddress, row = int rowIndex + 2, column = header,
                          message = ''This field cannot be empty'', type = blank\<rparr>]
         else
           let stringValue = trim (toStr value);
               errors1 =
                 (if includes_str (toLowerCase header) ''email'' \<and> \<not> validateEmail stringValue
                  then errors @ [\<lparr>cellAddress = cellAddress, row = int rowIndex + 2,
                                   column = header, message = ''Invalid email format'',
                                   type = email\<rparr>]
                  else errors);
               errors2 =
                 (if (includes_str (toLowerCase header) ''phone''
                        \<or> includes_str (toLowerCase header) ''mobile'')
                      \<and> \<not> validatePhone stringValue
                  then errors1 @ [\<lparr>cellAddress = cellAddress, row = int rowIndex + 2,
                                    column = header,
                                    message = ''Phone number must be exactly 10 digits'',
                                    type = phone\<rparr>]
                  else errors1);
               errors3 =
                 (if (includes_str (toLowerCase header) ''age''
                        \<or> includes_str (toLowerCase header) ''number''
                        \<or> includes_str (toLowerCase header) ''numeric'')
                      \<and> \<not> validateNumeric stringValue
                  then errors2 @ [\<lparr>cellAddress = cellAddress, row = int rowIndex + 2,
                                    column = header, message = ''Must be a valid number'',
                                    type = numeric\<rparr>]
                  else errors2)
           in if includes_str (toLowerCase header) ''date''
                   \<and> \<not> validateDate parsesAsDate stringValue
              then errors3 @ [\<lparr>cellAddress = cellAddress, row = int rowIndex + 2,
                                column = header, message = ''Invalid date format'',
                                type = date\<rparr>]
              else errors3)"

definition validateRow ::
  "(string \<Rightarrow> bool) \<Rightarrow> rowObject \<Rightarrow> string list \<Rightarrow> nat \<Rightarrow> ValidationError list" where
  "validateRow parsesAsDate rowData headers rowIndex =
     fold (\<lambda>(colIndex, header) errors.
             validateCell parsesAsDate rowData rowIndex header colIndex errors)
          (enumerate 0 headers) []"

section \<open>Uniqueness pass\<close>

definition isIdentityHeader :: "string \<Rightarrow> bool" where
  "isIdentityHeader header =
     (includes_str (toLowerCase header) ''id''
      \<or> includes_str (toLowerCase header) ''registration''
      \<or> includes_str (toLowerCase header) ''unique'')"

text \<open>
  The callback of \<open>data.forEach\<close> for one row of one identity column. Its state is the map
  \<open>values\<close> from a value to the index of the row that first held it, and the error list.
\<close>

definition checkUniqueRow ::
  "string \<Rightarrow> nat \<Rightarrow> rowObject \<Rightarrow> nat \<Rightarrow> (string \<rightharpoonup> nat) \<times> ValidationError list
     \<Rightarrow> (string \<rightharpoonup> nat) \<times> ValidationError list" where
  "checkUniqueRow header colIndex rowObj rowIndex st =
     (let values = fst st; errors = snd st;
          value = trim (toStr (orEmpty (rowObj header)))
      in if value \<noteq> [] then
           (case values value of
              Some originalRowIndex \<Rightarrow>
                (values,
                 errors @ [\<lparr>cellAddress = getCellAddress (int rowIndex + 1) (int colIndex),
                             row = int rowIndex + 2, column = header,
                             message = ''Duplicate value found (also in row ''
                                         @ numberToString (int originalRowIndex + 2) @ '')'',
                             type = unique\<rparr>])
            | None \<Rightarrow> (values(value \<mapsto> rowIndex), errors))
         else (values, errors))"

definition checkUniqueColumn ::
  "rowObject list \<Rightarrow> string \<Rightarrow> nat \<Rightarrow> ValidationError list \<Rightarrow> ValidationError list" where
  \<comment> \<open>the callback of \<open>headers.forEach\<close> in \<open>checkUniqueConstraints\<close>\<close>
  "checkUniqueColumn data header colIndex errors =
     (if isIdentityHeader header
      then snd (fold (\<lambda>(rowIndex, rowObj) st. checkUniqueRow header colIndex rowObj rowIndex st)
                     (enumerate 0 data) (Map.empty, errors))
      else errors)"

definition checkUniqueConstraints :: "rowObject list \<Rightarrow> string list \<Rightarrow> ValidationError list" where
  "checkUniqueConstraints data headers =
     fold (\<lambda>(colIndex, header) errors. checkUniqueColumn data header colIndex errors)
          (enumerate 0 headers) []"

section \<open>Processing a decoded sheet\<close>

text \<open>
  \<open>processFile\<close> is modelled from the decoded workbook on: its sheet names and
  \<open>jsonData\<close>, the rows of the first sheet as the decoder delivers them, each row an array
  of raw cell values. The first row is the header row; the cast \<open>as string[]\<close> changes
  nothing at run time, so a header cell can be a number, a boolean or null. The arrays are
  sparse: an empty cell is a hole, written \<open>Undefined\<close> here. Reading the file and decoding
  it are outside the model, and so is a header named \<open>__proto__\<close>, the one property name
  whose assignment does not store a value.
\<close>

record Workbook =
  SheetNames :: "string list"
  jsonData :: "raw list list"

record SheetData =
  headers :: "raw list"
  rows :: "raw list list"
  originalData :: "rowObject list"

record ProcessResult =
  data :: "SheetData option"
  errors :: "ValidationError list"

text \<open>
  The promise rejects with one of three errors: \<open>Multiple sheets detected. Please upload a
  file with only one sheet.\<close>, \<open>The Excel sheet is empty\<close>, and, from the \<open>catch\<close>,
  \<open>Failed to parse Excel file: \<close> followed by the message of the exception caught.
\<close>

datatype rejection = MultipleSheets | EmptySheet | FailedToParse

datatype 'a promise = Resolved 'a | Rejected rejection

definition elementAt :: "raw list \<Rightarrow> nat \<Rightarrow> raw" where
  \<comment> \<open>\<open>row[index]\<close>: \<open>undefined\<close> beyond the end of the array\<close>
  "elementAt r index = (if index < length r then r ! index else Undefined)"

definition toObject :: "string list \<Rightarrow> raw list \<Rightarrow> rowObject" where
  \<comment> \<open>the callback of \<open>dataRows.map\<close>: \<open>obj[header] = row[index]\<close> for every header\<close>
  "toObject hs r =
     fold (\<lambda>(index, header) obj. obj(header := elementAt r index)) (enumerate 0 hs) (\<lambda>k. Undefined)"

definition allErrors ::
  "(string \<Rightarrow> bool) \<Rightarrow> rowObject list \<Rightarrow> string list \<Rightarrow> ValidationError list" where
  \<comment> \<open>the variable \<open>allErrors\<close> after both passes\<close>
  "allErrors parsesAsDate objectData hs =
     (let rowByRow =
            fold (\<lambda>(index, rowObj) acc. acc @ validateRow parsesAsDate rowObj hs index)
                 (enumerate 0 objectData) [];
          uniqueErrors = checkUniqueConstraints objectData hs
      in rowByRow @ uniqueErrors)"

definition nameColumn :: "string list \<Rightarrow> string" where
  \<comment> \<open>\<open>headers.find(...) || headers[0]\<close>, as the property name it is used for: with no header
      at all it is \<open>undefined\<close>, which reads the property \<open>"undefined"\<close>\<close>
  "nameColumn hs =
     (case find (\<lambda>h. includes_str (toLowerCase h) ''name''
                       \<or> includes_str (toLowerCase h) ''title'') hs of
        Some h \<Rightarrow> h
      | None \<Rightarrow> (case hs of [] \<Rightarrow> ''undefined'' | h # _ \<Rightarrow> h))"

text \<open>
  \<open>Array.prototype.sort\<close> is stable, and with a consistent comparator its result is
  determined: the stable arrangement in ascending order. It is modelled by stable insertion.
  \<open>localeCompare\<close> depends on the engine's collation and is a parameter of the model.
\<close>

fun insertSorted :: "('a \<Rightarrow> 'a \<Rightarrow> int) \<Rightarrow> 'a \<Rightarrow> 'a list \<Rightarrow> 'a list" where
  "insertSorted cmp x [] = [x]"
| "insertSorted cmp x (y # ys) =
     (if cmp x y \<le> 0 then x # y # ys else y # insertSorted cmp x ys)"

definition sort_by :: "('a \<Rightarrow> 'a \<Rightarrow> int) \<Rightarrow> 'a list \<Rightarrow> 'a list" where
  "sort_by cmp xs = foldr (insertSorted cmp) xs []"

definition sortKey :: "string \<Rightarrow> rowObject \<Rightarrow> string" where
  \<comment> \<open>\<open>String(a[nameColumn] || '').toLowerCase()\<close>\<close>
  "sortKey col a = toLowerCase (toStr (orEmpty (a col)))"

definition sortedData ::
  "(string \<Rightarrow> string \<Rightarrow> int) \<Rightarrow> string list \<Rightarrow> rowObject list \<Rightarrow> rowObject list" where
  "sortedData localeCompare hs objectData =
     sort_by (\<lambda>a b. localeCompare (sortKey (nameColumn hs) a) (sortKey (nameColumn hs) b))
             objectData"

text \<open>
  At run time the header array of \<open>processFile\<close> is what the decoder delivered. Calling
  \<open>header.toLowerCase()\<close> on a header cell that is present and not a string throws a
  TypeError; the uniqueness pass makes that call for every present header cell, whatever the
  rows hold, so such a header row always ends in the \<open>catch\<close>. \<open>forEach\<close> and \<open>map\<close>
  skip the holes of the array and pass the present cells with their positions; \<open>find\<close>
  visits a hole as \<open>undefined\<close>, where \<open>h.toLowerCase()\<close> throws as well.
\<close>

fun nonStringValue :: "raw \<Rightarrow> bool" where
  \<comment> \<open>a cell that is present and not a string\<close>
  "nonStringValue Undefined = False"
| "nonStringValue (Str s) = False"
| "nonStringValue v = True"

definition presentHeaders :: "raw list \<Rightarrow> (nat \<times> string) list" where
  \<comment> \<open>the positions and names \<open>forEach\<close> visits on a header array whose present cells are
      strings\<close>
  "presentHeaders headerCells =
     concat (map (\<lambda>(index, c). case c of Str header \<Rightarrow> [(index, header)] | _ \<Rightarrow> [])
                 (enumerate 0 headerCells))"

definition toObjectSparse :: "raw list \<Rightarrow> raw list \<Rightarrow> rowObject" where
  \<comment> \<open>\<open>toObject\<close> on a header array with holes\<close>
  "toObjectSparse headerCells r =
     fold (\<lambda>(index, header) obj. obj(header := elementAt r index))
          (presentHeaders headerCells) (\<lambda>k. Undefined)"

definition validateRowSparse ::
  "(string \<Rightarrow> bool) \<Rightarrow> rowObject \<Rightarrow> raw list \<Rightarrow> nat \<Rightarrow> ValidationError list" where
  \<comment> \<open>\<open>validateRow\<close> on a header array with holes: the same callback, on the present cells\<close>
  "validateRowSparse parsesAsDate rowData headerCells rowIndex =
     fold (\<lambda>(colIndex, header) errors.
             validateCell parsesAsDate rowData rowIndex header colIndex errors)
          (presentHeaders headerCells) []"

definition checkUniqueConstraintsSparse ::
  "rowObject list \<Rightarrow> raw list \<Rightarrow> ValidationError list" where
  \<comment> \<open>\<open>checkUniqueConstraints\<close> on a header array with holes\<close>
  "checkUniqueConstraintsSparse objectData headerCells =
     fold (\<lambda>(colIndex, header) errors. checkUniqueColumn objectData header colIndex errors)
          (presentHeaders headerCells) []"

definition allErrorsSparse ::
  "(string \<Rightarrow> bool) \<Rightarrow> rowObject list \<Rightarrow> raw list \<Rightarrow> ValidationError list" where
  \<comment> \<open>the variable \<open>allErrors\<close> after both passes, on a header array with holes\<close>
  "allErrorsSparse parsesAsDate objectData headerCells =
     (let rowByRow =
            fold (\<lambda>(index, rowObj) acc.
                    acc @ validateRowSparse parsesAsDate rowObj headerCells index)
                 (enumerate 0 objectData) [];
          uniqueErrors = checkUniqueConstraintsSparse objectData headerCells
      in rowByRow @ uniqueErrors)"

datatype findResult = Found string | NotFound | Threw

fun findNameLike :: "raw list \<Rightarrow> findResult" where
  \<comment> \<open>\<open>headers.find(h => h.toLowerCase().includes('name') || h.toLowerCase().includes('title'))\<close>:
      the first matching header, or the exception at the first cell that is not a string\<close>
  "findNameLike [] = NotFound"
| "findNameLike (Str h # cs) =
     (if includes_str (toLowerCase h) ''name'' \<or> includes_str (toLowerCase h) ''title''
      then Found h else findNameLike cs)"
| "findNameLike (c # cs) = Threw"

definition nameColumnSparse :: "raw list \<Rightarrow> string option" where
  \<comment> \<open>\<open>headers.find(...) || headers[0]\<close> on the header array, as the property name it is
      used for; \<open>None\<close> when \<open>find\<close> throws\<close>
  "nameColumnSparse headerCells =
     (case findNameLike headerCells of
        Found h \<Rightarrow> Some h
      | Threw \<Rightarrow> None
      | NotFound \<Rightarrow> Some (case headerCells of Str h # _ \<Rightarrow> h | _ \<Rightarrow> ''undefined''))"

definition processFile ::
  "(string \<Rightarrow> bool) \<Rightarrow> (string \<Rightarrow> string \<Rightarrow> int) \<Rightarrow> Workbook \<Rightarrow> ProcessResult promise" where
  "processFile parsesAsDate localeCompare workbook =
     (if length (SheetNames workbook) > 1
      then Rejected MultipleSheets
      else
        (case jsonData workbook of
           [] \<Rightarrow> Rejected EmptySheet
         | headerCells # dataRows \<Rightarrow>
             if list_ex nonStringValue headerCells then Rejected FailedToParse
             else
               let objectData = map (toObjectSparse headerCells) dataRows;
                   errs = allErrorsSparse parsesAsDate objectData headerCells
               in if length errs > 0
                  then Resolved \<lparr>data = None, errors = errs\<rparr>
                  else
                    (case nameColumnSparse headerCells of
                       None \<Rightarrow> Rejected FailedToParse
                     | Some col \<Rightarrow>
                         let sorted =
                               sort_by (\<lambda>a b. localeCompare (sortKey col a) (sortKey col b))
                                       objectData
                         in Resolved
                              \<lparr>data = Some \<lparr>headers = headerCells,
                                      rows = map (\<lambda>rowObj.
                                                    map (\<lambda>c. case c of Str header \<Rightarrow> rowObj header
                                                                      | _ \<Rightarrow> Undefined)
                                                        headerCells)
                                                 sorted,
                                      originalData = sorted\<rparr>,
                               errors = []\<rparr>)))"

definition codeUnitCompare :: "string \<Rightarrow> string \<Rightarrow> int" where
  \<comment> \<open>a concrete comparator for evaluation: the order of the strings by code units\<close>
  "codeUnitCompare a b = (if a < b then - 1 else if a = b then 0 else 1)"

section \<open>Search\<close>

text \<open>
  The index of the search library is the parameter \<open>fuse\<close>: the function from a query to
  the library's result list, each result holding the matched item.
\<close>

record 'a FuseResult =
  item :: 'a
  refIndex :: nat

definition search :: "(string \<Rightarrow> 'a FuseResult list) \<Rightarrow> string \<Rightarrow> 'a list" where
  "search fuse query = (if trim query = [] then [] else map item (fuse query))"

section \<open>Notions used to state the properties\<close>

definition columnNumber :: "string \<Rightarrow> int" where
  \<comment> \<open>reads column letters the way a spreadsheet numbers its columns:
      A = 1, ..., Z = 26, AA = 27, ...\<close>
  "columnNumber letters = foldl (\<lambda>a c. 26 * a + (of_char c - 64)) 0 letters"

definition isCapital :: "char \<Rightarrow> bool" where
  "isCapital c = (65 \<le> (of_char c :: nat) \<and> (of_char c :: nat) \<le> 90)"

definition firstOccurrence :: "'a list \<Rightarrow> 'a \<Rightarrow> nat" where
  \<comment> \<open>the index of the first element equal to \<open>x\<close>\<close>
  "firstOccurrence xs x = length (takeWhile (\<lambda>y. y \<noteq> x) xs)"

definition identityValues :: "string \<Rightarrow> rowObject list \<Rightarrow> string list" where
  \<comment> \<open>per row, the value the uniqueness pass compares: \<open>String(row[header] || '').trim()\<close>\<close>
  "identityValues header objectData =
     map (\<lambda>rowObj. trim (toStr (orEmpty (rowObj header)))) objectData"

definition uniqueError :: "string \<Rightarrow> nat \<Rightarrow> nat \<Rightarrow> nat \<Rightarrow> ValidationError" where
  \<comment> \<open>the error the uniqueness pass pushes at row \<open>rowIndex\<close> for a value first seen at row
      \<open>originalRowIndex\<close>\<close>
  "uniqueError header colIndex rowIndex originalRowIndex =
     \<lparr>cellAddress = getCellAddress (int rowIndex + 1) (int colIndex),
      row = int rowIndex + 2, column = header,
      message = ''Duplicate value found (also in row ''
                  @ numberToString (int originalRowIndex + 2) @ '')'',
      type = unique\<rparr>"

definition duplicateRows :: "string list \<Rightarrow> nat list" where
  \<comment> \<open>the indices, in ascending order, of the non-empty values that occur at an earlier index\<close>
  "duplicateRows ks = filter (\<lambda>i. ks ! i \<noteq> [] \<and> ks ! i \<in> set (take i ks)) [0..<length ks]"

definition firstSeen :: "string list \<Rightarrow> (string \<rightharpoonup> nat)" where
  \<comment> \<open>the map \<open>values\<close> after the rows with these values have been walked\<close>
  "firstSeen ks = (\<lambda>v. if v \<noteq> [] \<and> v \<in> set ks then Some (firstOccurrence ks v) else None)"

fun ruleKeywords :: "errorType \<Rightarrow> string list" where
  \<comment> \<open>the classifier's keyword lists, as the specification gives them\<close>
  "ruleKeywords email = [''email'']"
| "ruleKeywords phone = [''phone'', ''mobile'']"
| "ruleKeywords numeric = [''age'', ''number'', ''numeric'']"
| "ruleKeywords date = [''date'']"
| "ruleKeywords unique = [''id'', ''registration'', ''unique'']"
| "ruleKeywords blank = []"

definition ruleApplies :: "errorType \<Rightarrow> string \<Rightarrow> bool" where
  \<comment> \<open>the column name contains one of the rule's keywords, ignoring case\<close>
  "ruleApplies k header = list_ex (\<lambda>w. includes_str (toLowerCase header) w) (ruleKeywords k)"

fun rulePasses :: "(string \<Rightarrow> bool) \<Rightarrow> errorType \<Rightarrow> string \<Rightarrow> bool" where
  "rulePasses parsesAsDate email s = validateEmail s"
| "rulePasses parsesAsDate phone s = validatePhone s"
| "rulePasses parsesAsDate numeric s = validateNumeric s"
| "rulePasses parsesAsDate date s = validateDate parsesAsDate s"
| "rulePasses parsesAsDate k s = True"

fun ruleMessage :: "errorType \<Rightarrow> string" where
  \<comment> \<open>the message of each per-cell check; the uniqueness pass extends its own with the
      row of the first occurrence\<close>
  "ruleMessage email = ''Invalid email format''"
| "ruleMessage phone = ''Phone number must be exactly 10 digits''"
| "ruleMessage numeric = ''Must be a valid number''"
| "ruleMessage date = ''Invalid date format''"
| "ruleMessage blank = ''This field cannot be empty''"
| "ruleMessage unique = ''Duplicate value found''"

definition ruleError :: "nat \<Rightarrow> nat \<Rightarrow> string \<Rightarrow> errorType \<Rightarrow> ValidationError" where
  \<comment> \<open>the error of kind \<open>k\<close> at the cell in data row \<open>rowIndex\<close>, column \<open>colIndex\<close>\<close>
  "ruleError rowIndex colIndex header k =
     \<lparr>cellAddress = getCellAddress (int rowIndex + 1) (int colIndex),
      row = int rowIndex + 2, column = header, message = ruleMessage k, type = k\<rparr>"

definition emailNumberRow :: rowObject where
  "emailNumberRow = (\<lambda>k. Undefined)(''email_number'' := Str ''abc'')"

definition acceptAllDates :: "string \<Rightarrow> bool" where
  \<comment> \<open>a date parser for evaluation: it accepts every string\<close>
  "acceptAllDates s = True"



fun isBlankValue :: "raw \<Rightarrow> bool" where
  \<comment> \<open>blank as the specification words it: absent, null, or a string that is empty or
      white space only\<close>
  "isBlankValue Undefined = True"
| "isBlankValue Null = True"
| "isBlankValue (Str s) = list_all isWhiteSpace s"
| "isBlankValue v = False"

definition zeroIdRow :: rowObject where
  \<comment> \<open>a row whose \<open>ID\<close> cell holds the number 0\<close>
  "zeroIdRow = (\<lambda>k. Undefined)(''ID'' := Num 0)"

definition sevenIdRow :: rowObject where
  \<comment> \<open>a row whose \<open>ID\<close> cell holds the number 7\<close>
  "sevenIdRow = (\<lambda>k. Undefined)(''ID'' := Num 7)"

definition idRow :: "string \<Rightarrow> rowObject" where
  \<comment> \<open>a row whose \<open>ID\<close> cell holds the given string\<close>
  "idRow s = (\<lambda>k. Undefined)(''ID'' := Str s)"

definition oneHitFuse :: "string \<Rightarrow> string FuseResult list" where
  \<comment> \<open>an index for evaluation that matches every query with one item\<close>
  "oneHitFuse q = [\<lparr>item = ''row'', refIndex = 0\<rparr>]"

definition noHitFuse :: "string \<Rightarrow> string FuseResult list" where
  \<comment> \<open>an index for evaluation that matches nothing\<close>
  "noHitFuse q = []"

definition scenarioHeaders :: "string list" where
  "scenarioHeaders = [''Name'', ''Email'', ''Phone'', ''ID'']"

definition badWorkbook :: Workbook where
  \<comment> \<open>the end-to-end scenario of the specification with a bad second row\<close>
  "badWorkbook =
     \<lparr>SheetNames = [''Sheet1''],
      jsonData = map Str scenarioHeaders #
        [[Str ''Alice'', Str ''a@x.com'', Str ''1234567890'', Str ''1''],
         [Str ''bob'', Str ''bad'', Str ''123'', Str ''1'']]\<rparr>"




definition resolvedErrors :: "ProcessResult promise \<Rightarrow> ValidationError list option" where
  "resolvedErrors p = (case p of Resolved r \<Rightarrow> Some (errors r) | Rejected m \<Rightarrow> None)"

definition resolvedRows :: "ProcessResult promise \<Rightarrow> raw list list option" where
  "resolvedRows p =
     (case p of Resolved r \<Rightarrow> map_option rows (data r) | Rejected m \<Rightarrow> None)"

definition aliceRow :: rowObject where
  "aliceRow = toObject scenarioHeaders [Str ''Alice'', Str ''a@x.com'', Str ''1234567890'', Str ''1'']"

definition bobBadRow :: rowObject where
  "bobBadRow = toObject scenarioHeaders [Str ''bob'', Str ''bad'', Str ''123'', Str ''1'']"

definition cellSatisfiesRules :: "(string \<Rightarrow> bool) \<Rightarrow> string \<Rightarrow> raw \<Rightarrow> bool" where
  \<comment> \<open>the cell is not blank and passes every per-cell rule the header's name selects\<close>
  "cellSatisfiesRules parsesAsDate header v =
     (\<not> isBlankValue v
      \<and> list_all (\<lambda>k. if ruleApplies k header
                          then rulePasses parsesAsDate k (trim (toStr v)) else True)
                 [email, phone, numeric, date])"

definition noIdentityDuplicate :: "rowObject list \<Rightarrow> string \<Rightarrow> bool" where
  \<comment> \<open>no two rows hold the same trimmed stringified non-blank value in this column\<close>
  "noIdentityDuplicate objectData header =
     distinct (map (\<lambda>rowObj. trim (toStr (rowObj header)))
                   (filter (\<lambda>rowObj. \<not> isBlankValue (rowObj header)) objectData))"

definition bobRow :: rowObject where
  "bobRow = toObject scenarioHeaders [Str ''Bob'', Str ''b@x.com'', Str ''1234567890'', Str ''2'']"

definition isNameLike :: "string \<Rightarrow> bool" where
  \<comment> \<open>the header's name contains \<open>name\<close> or \<open>title\<close>, ignoring case\<close>
  "isNameLike h =
     (includes_str (toLowerCase h) ''name'' \<or> includes_str (toLowerCase h) ''title'')"

definition consistentComparator :: "(string \<Rightarrow> string \<Rightarrow> int) \<Rightarrow> bool" where
  \<comment> \<open>what the language asks of a comparator for \<open>sort\<close> to have a determined result:
      it compares a string equal to itself, swapping the arguments swaps the sign, and
      "not after" is transitive\<close>
  "consistentComparator lc =
     ((\<forall>a. lc a a = 0)
      \<and> (\<forall>a b. (lc a b < 0) = (lc b a > 0))
      \<and> (\<forall>a b c. lc a b \<le> 0 \<and> lc b c \<le> 0 \<longrightarrow> lc a c \<le> 0))"

definition claimedSortKey :: "string \<Rightarrow> rowObject \<Rightarrow> string" where
  \<comment> \<open>the sort key as the specification words it: the case-folded stringified value,
      with blank and absent values as the empty string\<close>
  "claimedSortKey col a =
     (if isBlankValue (a col) then [] else toLowerCase (toStr (a col)))"

definition claimedSortedData ::
  "(string \<Rightarrow> string \<Rightarrow> int) \<Rightarrow> string list \<Rightarrow> rowObject list \<Rightarrow> rowObject list" where
  "claimedSortedData lc hs objectData =
     sort_by (\<lambda>a b. lc (claimedSortKey (nameColumn hs) a) (claimedSortKey (nameColumn hs) b))
             objectData"

definition tableRows :: "string list \<Rightarrow> rowObject list \<Rightarrow> raw list list" where
  \<comment> \<open>the records as rows of cells: \<open>records.map(row => headers.map(header => row[header]))\<close>\<close>
  "tableRows hs objectData = map (\<lambda>rowObj. map (\<lambda>header. rowObj header) hs) objectData"

definition zeroScoreWorkbook :: Workbook where
  \<comment> \<open>one column \<open>Score\<close> with the numbers 0 and -5\<close>
  "zeroScoreWorkbook =
     \<lparr>SheetNames = [''Sheet1''], jsonData = [[Str ''Score''], [Num 0], [Num (- 5)]]\<rparr>"


section \<open>Cell addresses are spreadsheet addresses\<close>

lemma columnLoop_acc: "columnLoop col acc = columnLoop col [] @ acc"
proof (induction "nat (col + 1)" arbitrary: col acc rule: less_induct)
  case less
  show ?case
  proof (cases "col \<ge> 0")
    case True
    let ?q = "col div 26 - 1"
    let ?ch = "char_of (65 + col mod 26) :: char"
    have m: "nat (?q + 1) < nat (col + 1)" using True by simp
    have "columnLoop col acc = columnLoop ?q (?ch # acc)"
      using True by (subst columnLoop.simps) simp
    also have "\<dots> = columnLoop ?q [] @ (?ch # acc)" using less[OF m] by blast
    also have "\<dots> = (columnLoop ?q [] @ [?ch]) @ acc" by simp
    also have "columnLoop ?q [] @ [?ch] = columnLoop ?q [?ch]" using less[OF m, of "[?ch]"] by simp
    also have "columnLoop ?q [?ch] = columnLoop col []" using True by (subst (2) columnLoop.simps) simp
    finally show ?thesis .
  next
    case False
    then show ?thesis by (simp add: columnLoop.simps)
  qed
qed

lemma columnLoop_step:
  "col \<ge> 0 \<Longrightarrow> columnLoop col [] = columnLoop (col div 26 - 1) [] @ [char_of (65 + col mod 26)]"
  by (subst columnLoop.simps, subst columnLoop_acc) simp

lemma of_char_letter: "0 \<le> m \<Longrightarrow> m < 26 \<Longrightarrow> (of_char (char_of (65 + m :: int) :: char) :: int) = 65 + m"
  by (simp add: of_char_of)

lemma of_char_letter_nat: "0 \<le> m \<Longrightarrow> m < 26 \<Longrightarrow> (of_char (char_of (65 + m :: int) :: char) :: nat) = nat (65 + m)"
proof -
  assume a: "0 \<le> m" "m < 26"
  have "int (of_char (char_of (65 + m :: int) :: char) :: nat) = 65 + m"
    using of_char_letter[OF a] by (simp only: of_nat_of_char)
  then show ?thesis by linarith
qed

lemma columnNumber_columnLoop: "col \<ge> - 1 \<Longrightarrow> columnNumber (columnLoop col []) = col + 1"
proof (induction "nat (col + 1)" arbitrary: col rule: less_induct)
  case less
  show ?case
  proof (cases "col \<ge> 0")
    case True
    let ?q = "col div 26 - 1"
    have m: "nat (?q + 1) < nat (col + 1)" using True by simp
    have q: "?q \<ge> - 1" using True by simp
    have "columnNumber (columnLoop col []) = 26 * columnNumber (columnLoop ?q []) + (col mod 26 + 1)"
      using True by (simp add: columnLoop_step columnNumber_def of_char_letter)
    also have "\<dots> = 26 * (?q + 1) + (col mod 26 + 1)" using less(1)[OF m q] by simp
    also have "\<dots> = col + 1" by simp
    finally show ?thesis .
  next
    case False
    with less(2) have "col = - 1" by simp
    then show ?thesis by (simp add: columnLoop.simps columnNumber_def)
  qed
qed

lemma columnLoop_capitals: "list_all isCapital (columnLoop col [])"
proof (induction "nat (col + 1)" arbitrary: col rule: less_induct)
  case less
  show ?case
  proof (cases "col \<ge> 0")
    case True
    let ?q = "col div 26 - 1"
    have m: "nat (?q + 1) < nat (col + 1)" using True by simp
    have b: "0 \<le> col mod 26" "col mod 26 < 26" by simp_all
    then have "65 \<le> nat (65 + col mod 26) \<and> nat (65 + col mod 26) \<le> 90" by linarith
    then have "isCapital (char_of (65 + col mod 26))"
      using b by (simp only: isCapital_def of_char_letter_nat)
    then show ?thesis using less[OF m] True by (simp add: columnLoop_step)
  next
    case False
    then show ?thesis by (simp add: columnLoop.simps)
  qed
qed


lemma of_char_digitChar: "d < 10 \<Longrightarrow> (of_char (digitChar d) :: nat) = 48 + d"
  by (simp add: digitChar_def of_char_of)

lemma isDigit_digitChar: "d < 10 \<Longrightarrow> isDigit (digitChar d)"
  by (simp add: isDigit_def of_char_digitChar)

lemma digitValue_digitChar: "d < 10 \<Longrightarrow> digitValue (digitChar d) = int d"
proof -
  assume d: "d < 10"
  have "(of_char (digitChar d) :: int) = int (of_char (digitChar d))"
    by (simp only: of_nat_of_char)
  then have "(of_char (digitChar d) :: int) = 48 + int d"
    using of_char_digitChar[OF d] by simp
  then show ?thesis using d by (simp add: digitValue_def)
qed

lemma natToString_digits: "list_all isDigit (natToString n)"
proof (induction n rule: natToString.induct)
  case (1 n)
  show ?case
  proof (cases "n < 10")
    case True
    then show ?thesis by (subst natToString.simps) (simp add: isDigit_digitChar)
  next
    case False
    then show ?thesis using 1 by (subst natToString.simps) (simp add: isDigit_digitChar)
  qed
qed

lemma natToString_nonempty: "natToString n \<noteq> []"
  by (subst natToString.simps) simp

lemma digitsToInt_natToString: "digitsToInt 10 (natToString n) = int n"
proof (induction n rule: natToString.induct)
  case (1 n)
  show ?case
  proof (cases "n < 10")
    case True
    then show ?thesis
      by (subst natToString.simps) (simp add: digitsToInt_def digitValue_digitChar)
  next
    case False
    then have "digitsToInt 10 (natToString n)
        = digitsToInt 10 (natToString (n div 10)) * 10 + int (n mod 10)"
      by (subst natToString.simps) (simp add: digitsToInt_def digitValue_digitChar)
    moreover have "int (n div 10) * 10 + int (n mod 10) = int n"
      using div_mult_mod_eq[of "int n" 10] by (simp only: zdiv_int zmod_int of_nat_numeral)
    ultimately show ?thesis using 1 False by simp
  qed
qed

lemma numberToString_nat: "numberToString (int n) = natToString n"
  by (simp add: numberToString_def)

lemma capital_not_digit: "isCapital c \<Longrightarrow> \<not> isDigit c"
  by (simp add: isCapital_def isDigit_def)

lemma split_letters_digits:
  assumes "list_all isCapital l1" "list_all isCapital l2"
    and "list_all isDigit d1" "list_all isDigit d2"
    and "l1 @ d1 = l2 @ d2"
  shows "l1 = l2 \<and> d1 = d2"
proof -
  have t: "\<And>l d. list_all isCapital l \<Longrightarrow> list_all isDigit d \<Longrightarrow> takeWhile isCapital (l @ d) = l"
  proof -
    fix l d assume l: "list_all isCapital l" and d: "list_all isDigit d"
    have "takeWhile isCapital d = []"
      using d by (cases d) (auto simp: capital_not_digit)
    then show "takeWhile isCapital (l @ d) = l"
      using l by (simp add: list_all_iff takeWhile_append2)
  qed
  have "l1 = takeWhile isCapital (l1 @ d1)" using t[OF assms(1) assms(3)] by simp
  also have "\<dots> = takeWhile isCapital (l2 @ d2)" using assms(5) by simp
  also have "\<dots> = l2" using t[OF assms(2) assms(4)] by simp
  finally show ?thesis using assms(5) by simp
qed

lemma getCellAddress_inj:
  assumes "getCellAddress (int r1 + 1) (int c1) = getCellAddress (int r2 + 1) (int c2)"
  shows "r1 = r2 \<and> c1 = c2"
proof -
  have e: "columnLoop (int c1) [] @ natToString (r1 + 2) = columnLoop (int c2) [] @ natToString (r2 + 2)"
    using assms numberToString_nat[of "r1 + 2"] numberToString_nat[of "r2 + 2"]
    by (simp add: getCellAddress_def add.commute)
  have s: "columnLoop (int c1) [] = columnLoop (int c2) [] \<and> natToString (r1 + 2) = natToString (r2 + 2)"
    by (rule split_letters_digits[OF columnLoop_capitals columnLoop_capitals
          natToString_digits natToString_digits e])
  then have "columnNumber (columnLoop (int c1) []) = columnNumber (columnLoop (int c2) [])"
    and "digitsToInt 10 (natToString (r1 + 2)) = digitsToInt 10 (natToString (r2 + 2))" by simp_all
  then show ?thesis by (simp add: columnNumber_columnLoop digitsToInt_natToString)
qed

text \<open>
  C5. The address of the cell in data row \<open>rowIndex\<close> and column \<open>colIndex\<close> (both counted
  from 0) is the column's letters followed by the decimal numeral of \<open>rowIndex + 2\<close>. The
  letters are capitals and read as the spreadsheet column number \<open>colIndex + 1\<close>; columns 0,
  25 and 26 are A, Z and AA. The first data row is display row 2: a blank cell there, in the
  first column, is reported at A2 with row 2.
\<close>

theorem cell_address_spreadsheet_style:
  "getCellAddress (int rowIndex + 1) (int colIndex)
     = columnLoop (int colIndex) [] @ natToString (rowIndex + 2)
   \<and> list_all isCapital (columnLoop (int colIndex) [])
   \<and> columnNumber (columnLoop (int colIndex) []) = int colIndex + 1
   \<and> digitsToInt 10 (natToString (rowIndex + 2)) = int rowIndex + 2
   \<and> columnLoop 0 [] = ''A'' \<and> columnLoop 25 [] = ''Z'' \<and> columnLoop 26 [] = ''AA''
   \<and> getCellAddress (int 0 + 1) 0 = ''A2''
   \<and> validateRow parsesAsDate (\<lambda>k. Undefined) [header] 0
       = [\<lparr>cellAddress = ''A2'', row = 2, column = header,
            message = ''This field cannot be empty'', type = blank\<rparr>]"
proof -
  have a: "getCellAddress (int rowIndex + 1) (int colIndex)
     = columnLoop (int colIndex) [] @ natToString (rowIndex + 2)"
    using numberToString_nat[of "rowIndex + 2"] by (simp add: getCellAddress_def add.commute)
  have b: "columnLoop 0 [] = ''A''" "columnLoop 25 [] = ''Z''" "columnLoop 26 [] = ''AA''"
    by code_simp+
  have c: "getCellAddress (int 0 + 1) 0 = ''A2''" by code_simp
  have d: "validateRow parsesAsDate (\<lambda>k. Undefined) [header] 0
       = [\<lparr>cellAddress = ''A2'', row = 2, column = header,
            message = ''This field cannot be empty'', type = blank\<rparr>]"
    using c by (simp add: validateRow_def validateCell_def)
  show ?thesis
    using a b c d columnLoop_capitals[of "int colIndex"] columnNumber_columnLoop[of "int colIndex"]
      digitsToInt_natToString[of "rowIndex + 2"]
    by simp
qed

section \<open>The shape of the two passes\<close>

lemma fold_push_concat:
  assumes "\<And>x acc. g x acc = acc @ f x"
  shows "fold g xs a = a @ concat (map f xs)"
  using assms by (induction xs arbitrary: a) simp_all

lemma validateCell_push:
  "validateCell pd r i h j errs = errs @ validateCell pd r i h j []"
  by (simp add: validateCell_def Let_def)

lemma validateRow_concat:
  "validateRow pd r hs i = concat (map (\<lambda>(j, h). validateCell pd r i h j []) (enumerate 0 hs))"
proof -
  have "\<And>x acc. (\<lambda>(colIndex, header) errors. validateCell pd r i header colIndex errors) x acc
          = acc @ (\<lambda>(j, h). validateCell pd r i h j []) x"
    by (simp add: split_def validateCell_push[symmetric])
  then show ?thesis unfolding validateRow_def by (subst fold_push_concat) simp_all
qed

lemma firstOccurrence_append:
  "x \<in> set xs \<Longrightarrow> firstOccurrence (xs @ ys) x = firstOccurrence xs x"
  by (induction xs) (auto simp: firstOccurrence_def)

lemma firstOccurrence_new:
  "x \<notin> set xs \<Longrightarrow> firstOccurrence (xs @ [x]) x = length xs"
  by (induction xs) (auto simp: firstOccurrence_def)


lemma firstOccurrence_less: "x \<in> set xs \<Longrightarrow> firstOccurrence xs x < length xs"
  by (induction xs) (auto simp: firstOccurrence_def)

lemma firstOccurrence_nth: "x \<in> set xs \<Longrightarrow> xs ! firstOccurrence xs x = x"
  by (induction xs) (auto simp: firstOccurrence_def)

lemma firstSeen_snoc:
  "firstSeen (ks @ [k]) =
     (if k \<noteq> [] \<and> k \<notin> set ks then (firstSeen ks)(k \<mapsto> length ks) else firstSeen ks)"
  by (rule ext) (auto simp: firstSeen_def firstOccurrence_append firstOccurrence_new)

lemma duplicateRows_snoc:
  "duplicateRows (ks @ [k]) =
     duplicateRows ks @ (if k \<noteq> [] \<and> k \<in> set ks then [length ks] else [])"
proof -
  have "filter (\<lambda>i. (ks @ [k]) ! i \<noteq> [] \<and> (ks @ [k]) ! i \<in> set (take i (ks @ [k]))) [0..<length ks]
      = filter (\<lambda>i. ks ! i \<noteq> [] \<and> ks ! i \<in> set (take i ks)) [0..<length ks]"
    by (rule filter_cong) (auto simp: nth_append)
  then show ?thesis by (simp add: duplicateRows_def)
qed

lemma duplicateRows_mem:
  "i \<in> set (duplicateRows ks) \<longleftrightarrow> i < length ks \<and> ks ! i \<noteq> [] \<and> ks ! i \<in> set (take i ks)"
  by (auto simp: duplicateRows_def)

lemma map_uniqueError_snoc:
  "map (\<lambda>i. uniqueError h j i (firstOccurrence (ks @ [k]) ((ks @ [k]) ! i))) (duplicateRows ks)
     = map (\<lambda>i. uniqueError h j i (firstOccurrence ks (ks ! i))) (duplicateRows ks)"
proof (rule map_cong[OF refl])
  fix i assume "i \<in> set (duplicateRows ks)"
  then have i: "i < length ks" "ks ! i \<in> set (take i ks)" by (simp_all add: duplicateRows_mem)
  then have "ks ! i \<in> set ks" by (meson in_set_takeD)
  then show "uniqueError h j i (firstOccurrence (ks @ [k]) ((ks @ [k]) ! i))
           = uniqueError h j i (firstOccurrence ks (ks ! i))"
    using i by (simp add: nth_append firstOccurrence_append)
qed

lemma checkUniqueRow_step:
  "checkUniqueRow h j r i (vs, errs) =
     (if trim (toStr (orEmpty (r h))) \<noteq> [] then
        (case vs (trim (toStr (orEmpty (r h)))) of
           Some k \<Rightarrow> (vs, errs @ [uniqueError h j i k])
         | None \<Rightarrow> (vs(trim (toStr (orEmpty (r h))) \<mapsto> i), errs))
      else (vs, errs))"
  by (simp add: checkUniqueRow_def uniqueError_def Let_def split: option.splits)

lemma checkUniqueRows_fold:
  "fold (\<lambda>(rowIndex, rowObj) st. checkUniqueRow h j rowObj rowIndex st)
        (enumerate 0 ds) (Map.empty, errs)
   = (firstSeen (identityValues h ds),
      errs @ map (\<lambda>i. uniqueError h j i
                        (firstOccurrence (identityValues h ds) (identityValues h ds ! i)))
                 (duplicateRows (identityValues h ds)))"
proof (induction ds rule: rev_induct)
  case Nil
  show ?case by (simp add: identityValues_def duplicateRows_def firstSeen_def fun_eq_iff)
next
  case (snoc r ds)
  let ?ks = "identityValues h ds"
  let ?k = "trim (toStr (orEmpty (r h)))"
  let ?E = "errs @ map (\<lambda>i. uniqueError h j i (firstOccurrence ?ks (?ks ! i))) (duplicateRows ?ks)"
  have ks: "identityValues h (ds @ [r]) = ?ks @ [?k]" by (simp add: identityValues_def)
  have len: "length ?ks = length ds" by (simp add: identityValues_def)
  have en: "enumerate 0 (ds @ [r]) = enumerate 0 ds @ [(length ds, r)]"
    by (simp add: enumerate_append_eq)
  have st: "fold (\<lambda>(rowIndex, rowObj) st. checkUniqueRow h j rowObj rowIndex st)
        (enumerate 0 (ds @ [r])) (Map.empty, errs)
      = checkUniqueRow h j r (length ds) (firstSeen ?ks, ?E)"
    by (simp add: en snoc)
  show ?case
  proof (cases "?k \<noteq> [] \<and> ?k \<in> set ?ks")
    case True
    then have fs: "firstSeen ?ks ?k = Some (firstOccurrence ?ks ?k)" by (simp add: firstSeen_def)
    show ?thesis
      unfolding st ks checkUniqueRow_step
      using True fs len nth_append_length[of ?ks ?k]
      by (simp add: firstSeen_snoc duplicateRows_snoc map_uniqueError_snoc firstOccurrence_append
            del: nth_append_length)
  next
    case False
    then have fs: "?k \<noteq> [] \<Longrightarrow> firstSeen ?ks ?k = None" by (simp add: firstSeen_def)
    show ?thesis
      unfolding st ks checkUniqueRow_step
      using False fs len
      by (auto simp add: firstSeen_snoc duplicateRows_snoc map_uniqueError_snoc)
  qed
qed

lemma checkUniqueColumn_eq:
  "checkUniqueColumn ds h j errs =
     errs @ (if isIdentityHeader h
             then map (\<lambda>i. uniqueError h j i
                        (firstOccurrence (identityValues h ds) (identityValues h ds ! i)))
                      (duplicateRows (identityValues h ds))
             else [])"
  by (simp add: checkUniqueColumn_def checkUniqueRows_fold)

lemma checkUniqueConstraints_concat:
  "checkUniqueConstraints ds hs =
     concat (map (\<lambda>(j, h). checkUniqueColumn ds h j []) (enumerate 0 hs))"
proof -
  have "\<And>x acc. (\<lambda>(colIndex, header) errors. checkUniqueColumn ds header colIndex errors) x acc
          = acc @ (\<lambda>(j, h). checkUniqueColumn ds h j []) x"
    by (simp add: split_def checkUniqueColumn_eq)
  then show ?thesis unfolding checkUniqueConstraints_def by (subst fold_push_concat) simp_all
qed

lemma allErrors_concat:
  "allErrors pd ds hs =
     concat (map (\<lambda>(i, r). validateRow pd r hs i) (enumerate 0 ds))
     @ checkUniqueConstraints ds hs"
proof -
  have "\<And>x acc. (\<lambda>(index, rowObj) acc. acc @ validateRow pd rowObj hs index) x acc
          = acc @ (\<lambda>(i, r). validateRow pd r hs i) x"
    by (simp add: split_def)
  then show ?thesis unfolding allErrors_def Let_def by (subst fold_push_concat) simp_all
qed

section \<open>Per-cell checks\<close>

lemma validateCell_blank:
  "r h = Undefined \<or> r h = Null \<or> r h = Str [] \<Longrightarrow>
     validateCell pd r i h j [] = [ruleError i j h blank]"
  by (auto simp: validateCell_def ruleError_def)

lemma validateCell_rules:
  assumes "r h \<noteq> Undefined" "r h \<noteq> Null" "r h \<noteq> Str []"
  shows "validateCell pd r i h j [] =
     map (ruleError i j h)
         (filter (\<lambda>k. ruleApplies k h \<and> \<not> rulePasses pd k (trim (toStr (r h))))
                 [email, phone, numeric, date])"
  using assms by (simp add: validateCell_def Let_def ruleError_def ruleApplies_def)

lemma validateCell_address:
  assumes "e \<in> set (validateCell pd r i h j [])"
  shows "cellAddress e = getCellAddress (int i + 1) (int j) \<and> row e = int i + 2
         \<and> column e = h \<and> type e \<noteq> unique"
proof -
  have "\<exists>k. e = ruleError i j h k \<and> k \<noteq> unique"
  proof (cases "r h = Undefined \<or> r h = Null \<or> r h = Str []")
    case True
    have "validateCell pd r i h j [] = [ruleError i j h blank]"
      by (rule validateCell_blank[of r h, OF True])
    with assms have "e = ruleError i j h blank" by simp
    then show ?thesis by blast
  next
    case False
    then have nb: "r h \<noteq> Undefined" "r h \<noteq> Null" "r h \<noteq> Str []" by blast+
    have "e \<in> ruleError i j h `
        set (filter (\<lambda>k. ruleApplies k h \<and> \<not> rulePasses pd k (trim (toStr (r h))))
               [email, phone, numeric, date])"
      using assms unfolding validateCell_rules[of r h, OF nb] set_map .
    then obtain k where k: "e = ruleError i j h k"
        "k \<in> set (filter (\<lambda>k. ruleApplies k h \<and> \<not> rulePasses pd k (trim (toStr (r h))))
               [email, phone, numeric, date])"
      by blast
    have "set (filter (\<lambda>k. ruleApplies k h \<and> \<not> rulePasses pd k (trim (toStr (r h))))
               [email, phone, numeric, date]) \<subseteq> set [email, phone, numeric, date]"
      by (rule filter_is_subset)
    with k(2) have "k \<in> set [email, phone, numeric, date]" by (rule rev_subsetD)
    then have "k \<noteq> unique" by auto
    with k(1) show ?thesis by blast
  qed
  then obtain k where "e = ruleError i j h k" "k \<noteq> unique" by blast
  then show ?thesis by (simp add: ruleError_def)
qed

lemma address_A2: "getCellAddress (int 0 + 1) (int 0) = ''A2''"
  by code_simp

text \<open>
  C8. A cell that passes the blank check gets one error for each of the four rules, in the
  order email, phone, numeric, date, whose keyword occurs in the column name and whose
  validator rejects the trimmed string of the value; each rule is decided on its own. In a
  column named \<open>email_number\<close> the value \<open>abc\<close> gets an email error and a numeric error.
\<close>

theorem matching_rules_checked_independently:
  "(r h \<noteq> Undefined \<and> r h \<noteq> Null \<and> r h \<noteq> Str [] \<longrightarrow>
     validateCell parsesAsDate r i h j [] =
       map (ruleError i j h)
         (filter (\<lambda>k. ruleApplies k h \<and> \<not> rulePasses parsesAsDate k (trim (toStr (r h))))
                 [email, phone, numeric, date]))
   \<and> validateRow parsesAsDate emailNumberRow [''email_number''] 0 =
       [\<lparr>cellAddress = ''A2'', row = 2, column = ''email_number'',
          message = ''Invalid email format'', type = email\<rparr>,
        \<lparr>cellAddress = ''A2'', row = 2, column = ''email_number'',
          message = ''Must be a valid number'', type = numeric\<rparr>]"
proof -
  have v: "emailNumberRow ''email_number'' = Str ''abc''" by (simp add: emailNumberRow_def)
  have a: "ruleApplies email ''email_number''" "\<not> ruleApplies phone ''email_number''"
    "ruleApplies numeric ''email_number''" "\<not> ruleApplies date ''email_number''"
    by code_simp+
  have p: "\<not> validateEmail (trim ''abc'')" "\<not> validateNumeric (trim ''abc'')"
    by code_simp+
  have "validateCell parsesAsDate emailNumberRow 0 ''email_number'' 0 [] =
          [ruleError 0 0 ''email_number'' email, ruleError 0 0 ''email_number'' numeric]"
    using a p by (subst validateCell_rules) (simp_all add: v)
  then have "validateRow parsesAsDate emailNumberRow [''email_number''] 0 =
       [\<lparr>cellAddress = ''A2'', row = 2, column = ''email_number'',
          message = ''Invalid email format'', type = email\<rparr>,
        \<lparr>cellAddress = ''A2'', row = 2, column = ''email_number'',
          message = ''Must be a valid number'', type = numeric\<rparr>]"
    using address_A2 by (simp add: validateRow_concat ruleError_def)
  then show ?thesis using validateCell_rules[of r h parsesAsDate i j] by blast
qed

theorem matching_rules_checked_independently_witness:
  "emailNumberRow ''email_number'' \<noteq> Undefined \<and> emailNumberRow ''email_number'' \<noteq> Null
   \<and> emailNumberRow ''email_number'' \<noteq> Str []
   \<and> validateCell (\<lambda>s. True) emailNumberRow 0 ''email_number'' 0 []
       = [ruleError 0 0 ''email_number'' email, ruleError 0 0 ''email_number'' numeric]"
proof -
  have v: "emailNumberRow ''email_number'' = Str ''abc''" by (simp add: emailNumberRow_def)
  have a: "ruleApplies email ''email_number''" "\<not> ruleApplies phone ''email_number''"
    "ruleApplies numeric ''email_number''" "\<not> ruleApplies date ''email_number''"
    by code_simp+
  have p: "\<not> validateEmail (trim ''abc'')" "\<not> validateNumeric (trim ''abc'')"
    by code_simp+
  show ?thesis
    using matching_rules_checked_independently
      [of emailNumberRow "''email_number''" "\<lambda>s. True" 0 0] a p
    by (simp add: v)
qed

section \<open>The errors of one cell within the whole error list\<close>

lemma map_enumerate_nth:
  "map f (enumerate 0 xs) = map (\<lambda>k. f (k, xs ! k)) [0..<length xs]"
  by (rule nth_equalityI) (simp_all add: nth_enumerate_eq)

lemma filter_concat_none:
  "(\<And>k. k \<in> set ks \<Longrightarrow> filter P (g k) = []) \<Longrightarrow> filter P (concat (map g ks)) = []"
  by (induction ks) simp_all

lemma filter_concat_pick:
  assumes "j < m" and "\<And>k. k < m \<Longrightarrow> k \<noteq> j \<Longrightarrow> filter P (g k) = []"
  shows "filter P (concat (map g [0..<m])) = filter P (g j)"
proof -
  have s: "[0..<m] = [0..<j] @ [j] @ [Suc j..<m]"
  proof -
    have "[0..<m] = [0..<j] @ [j..<m]"
      using assms(1) upt_add_eq_append[of 0 j "m - j"] by simp
    then show ?thesis using assms(1) by (simp add: upt_conv_Cons)
  qed
  have a: "filter P (concat (map g [0..<j])) = []"
    using assms by (intro filter_concat_none) auto
  have b: "filter P (concat (map g [Suc j..<m])) = []"
    using assms by (intro filter_concat_none) auto
  show ?thesis by (simp add: s a b del: upt_Suc)
qed

lemma validateRow_index:
  "validateRow pd r hs i =
     concat (map (\<lambda>j. validateCell pd r i (hs ! j) j []) [0..<length hs])"
  by (simp add: validateRow_concat map_enumerate_nth)

lemma checkUniqueConstraints_index:
  "checkUniqueConstraints ds hs =
     concat (map (\<lambda>j. checkUniqueColumn ds (hs ! j) j []) [0..<length hs])"
  by (simp add: checkUniqueConstraints_concat map_enumerate_nth)

lemma allErrors_index:
  "allErrors pd ds hs =
     concat (map (\<lambda>i. concat (map (\<lambda>j. validateCell pd (ds ! i) i (hs ! j) j [])
                                     [0..<length hs]))
                 [0..<length ds])
     @ concat (map (\<lambda>j. checkUniqueColumn ds (hs ! j) j []) [0..<length hs])"
  by (simp add: allErrors_concat map_enumerate_nth validateRow_index checkUniqueConstraints_index)

lemma filter_validateCell:
  "filter (\<lambda>e. cellAddress e = getCellAddress (int i + 1) (int j)) (validateCell pd r i' h j' [])
     = (if i' = i \<and> j' = j then validateCell pd r i' h j' [] else [])"
proof (cases "i' = i \<and> j' = j")
  case True
  then have "\<forall>e \<in> set (validateCell pd r i' h j' []).
      cellAddress e = getCellAddress (int i + 1) (int j)"
    using validateCell_address[of _ pd r i' h j'] by blast
  then show ?thesis using True by (simp add: filter_id_conv)
next
  case False
  have "\<forall>e \<in> set (validateCell pd r i' h j' []).
      cellAddress e \<noteq> getCellAddress (int i + 1) (int j)"
  proof
    fix e assume "e \<in> set (validateCell pd r i' h j' [])"
    then have "cellAddress e = getCellAddress (int i' + 1) (int j')"
      using validateCell_address[of e pd r i' h j'] by blast
    then show "cellAddress e \<noteq> getCellAddress (int i + 1) (int j)"
      using getCellAddress_inj[of i' j' i j] False by auto
  qed
  then have "filter (\<lambda>e. cellAddress e = getCellAddress (int i + 1) (int j))
      (validateCell pd r i' h j' []) = []"
    by (simp only: filter_empty_conv)
  then show ?thesis using False by auto
qed

lemma filter_rowByRow:
  assumes "i < length ds" "j < length hs"
  shows "filter (\<lambda>e. cellAddress e = getCellAddress (int i + 1) (int j))
           (concat (map (\<lambda>i. concat (map (\<lambda>j. validateCell pd (ds ! i) i (hs ! j) j [])
                                           [0..<length hs]))
                        [0..<length ds]))
         = validateCell pd (ds ! i) i (hs ! j) j []"
proof -
  let ?P = "\<lambda>e. cellAddress e = getCellAddress (int i + 1) (int j)"
  let ?row = "\<lambda>i. concat (map (\<lambda>j. validateCell pd (ds ! i) i (hs ! j) j []) [0..<length hs])"
  have other: "\<And>k. k < length ds \<Longrightarrow> k \<noteq> i \<Longrightarrow> filter ?P (?row k) = []"
    by (intro filter_concat_none) (simp add: filter_validateCell)
  have "filter ?P (concat (map ?row [0..<length ds])) = filter ?P (?row i)"
    by (rule filter_concat_pick[OF assms(1)]) (rule other)
  also have "\<dots> = filter ?P (validateCell pd (ds ! i) i (hs ! j) j [])"
    by (rule filter_concat_pick[OF assms(2)]) (simp add: filter_validateCell)
  also have "\<dots> = validateCell pd (ds ! i) i (hs ! j) j []"
    by (simp add: filter_validateCell)
  finally show ?thesis .
qed

lemma trim_empty: "trim [] = []"
  by (simp add: trim_def)

lemma trim_whitespace: "list_all isWhiteSpace s \<Longrightarrow> trim s = []"
proof -
  assume "list_all isWhiteSpace s"
  then have d: "dropWhile isWhiteSpace s = []"
    by (simp only: dropWhile_eq_Nil_conv list_all_iff)
  show ?thesis unfolding trim_def d by simp
qed

lemma identityValues_nth:
  "i < length ds \<Longrightarrow> identityValues h ds ! i = trim (toStr (orEmpty ((ds ! i) h)))"
  by (simp add: identityValues_def)

lemma identityValues_length: "length (identityValues h ds) = length ds"
  by (simp add: identityValues_def)

lemma checkUniqueColumn_mem:
  assumes "e \<in> set (checkUniqueColumn ds h j [])"
  shows "isIdentityHeader h \<and>
         (\<exists>i \<in> set (duplicateRows (identityValues h ds)).
            e = uniqueError h j i (firstOccurrence (identityValues h ds) (identityValues h ds ! i)))"
  using assms by (auto simp: checkUniqueColumn_eq split: if_splits)

lemma falsy_not_duplicate:
  assumes "i < length ds" "\<not> truthy ((ds ! i) h)"
  shows "i \<notin> set (duplicateRows (identityValues h ds))"
  using assms by (simp add: duplicateRows_mem identityValues_nth orEmpty_def trim_empty)

lemma filter_unique_falsy:
  assumes "i < length ds" "\<not> truthy ((ds ! i) (hs ! j))"
  shows "filter (\<lambda>e. cellAddress e = getCellAddress (int i + 1) (int j))
           (checkUniqueConstraints ds hs) = []"
  unfolding checkUniqueConstraints_index
proof (rule filter_concat_none)
  fix j' assume "j' \<in> set [0..<length hs]"
  have "\<forall>e \<in> set (checkUniqueColumn ds (hs ! j') j' []).
          cellAddress e \<noteq> getCellAddress (int i + 1) (int j)"
  proof
    fix e assume "e \<in> set (checkUniqueColumn ds (hs ! j') j' [])"
    then obtain i' where i': "i' \<in> set (duplicateRows (identityValues (hs ! j') ds))"
      and e: "cellAddress e = getCellAddress (int i' + 1) (int j')"
      using checkUniqueColumn_mem[of e ds "hs ! j'" j'] by (auto simp: uniqueError_def)
    show "cellAddress e \<noteq> getCellAddress (int i + 1) (int j)"
    proof
      assume "cellAddress e = getCellAddress (int i + 1) (int j)"
      then have "i' = i \<and> j' = j" using e getCellAddress_inj[of i' j' i j] by simp
      then show False using i' falsy_not_duplicate[OF assms] by simp
    qed
  qed
  then show "filter (\<lambda>e. cellAddress e = getCellAddress (int i + 1) (int j))
               (checkUniqueColumn ds (hs ! j') j' []) = []"
    by (simp only: filter_empty_conv)
qed




section \<open>The uniqueness pass\<close>

lemma falsy_cases: "(\<not> truthy v) = (v \<in> {Undefined, Null, Str [], Num 0, Bool False})"
  by (cases v) auto

lemma identityValues_falsy_as_undefined:
  "identityValues h (map (\<lambda>rowObj k. if truthy (rowObj k) then rowObj k else Undefined) ds)
     = identityValues h ds"
  by (simp add: identityValues_def orEmpty_def)

lemma checkUniqueColumn_falsy_as_undefined:
  "checkUniqueColumn (map (\<lambda>rowObj k. if truthy (rowObj k) then rowObj k else Undefined) ds) h j []
     = checkUniqueColumn ds h j []"
  by (simp only: checkUniqueColumn_eq identityValues_falsy_as_undefined)

text \<open>
  C10. The uniqueness pass reads \<open>row[header] || ''\<close>, so every falsy raw value, that is
  absent, null, the empty string, the number 0 and the boolean false, is skipped: the pass
  gives the same errors as on the data with every falsy cell made absent, and it never
  reports the cell of a falsy value. Two rows that both hold the number 0 in an identity
  column give no error although both stringify to \<open>0\<close>, while two rows holding 7 do.
\<close>

theorem uniqueness_skips_falsy_values:
  "(\<not> truthy v) = (v \<in> {Undefined, Null, Str [], Num 0, Bool False})
   \<and> checkUniqueConstraints ds hs
       = checkUniqueConstraints
           (map (\<lambda>rowObj k. if truthy (rowObj k) then rowObj k else Undefined) ds) hs
   \<and> (i < length ds \<and> \<not> truthy ((ds ! i) (hs ! j))
        \<longrightarrow> filter (\<lambda>e. cellAddress e = getCellAddress (int i + 1) (int j))
                   (checkUniqueConstraints ds hs) = [])
   \<and> isIdentityHeader ''ID''
   \<and> trim (toStr (zeroIdRow ''ID'')) = ''0''
   \<and> checkUniqueConstraints [zeroIdRow, zeroIdRow] [''ID''] = []
   \<and> checkUniqueConstraints [sevenIdRow, sevenIdRow] [''ID'']
       = [\<lparr>cellAddress = ''A3'', row = 3, column = ''ID'',
            message = ''Duplicate value found (also in row 2)'', type = unique\<rparr>]"
proof -
  have a: "checkUniqueConstraints ds hs
       = checkUniqueConstraints
           (map (\<lambda>rowObj k. if truthy (rowObj k) then rowObj k else Undefined) ds) hs"
    by (simp only: checkUniqueConstraints_index checkUniqueColumn_falsy_as_undefined)
  have b: "isIdentityHeader ''ID''" by code_simp
  have c: "trim (toStr (zeroIdRow ''ID'')) = ''0''" by code_simp
  have d: "checkUniqueConstraints [zeroIdRow, zeroIdRow] [''ID''] = []" by code_simp
  have e: "checkUniqueConstraints [sevenIdRow, sevenIdRow] [''ID'']
       = [\<lparr>cellAddress = ''A3'', row = 3, column = ''ID'',
            message = ''Duplicate value found (also in row 2)'', type = unique\<rparr>]"
    by code_simp
  show ?thesis
    using falsy_cases[of v] a b c d e filter_unique_falsy[of i ds hs j] by blast
qed

theorem uniqueness_skips_falsy_values_witness:
  "(0 < length [zeroIdRow, zeroIdRow] \<and> \<not> truthy (([zeroIdRow, zeroIdRow] ! 0) ([''ID''] ! 0)))
   \<and> filter (\<lambda>e. cellAddress e = getCellAddress (int 0 + 1) (int 0))
             (checkUniqueConstraints [zeroIdRow, zeroIdRow] [''ID'']) = []"
proof -
  have h: "0 < length [zeroIdRow, zeroIdRow]
      \<and> \<not> truthy (([zeroIdRow, zeroIdRow] ! 0) ([''ID''] ! 0))"
    by (simp add: zeroIdRow_def)
  show ?thesis
    using uniqueness_skips_falsy_values [of "Num 0" "[zeroIdRow, zeroIdRow]" "[''ID'']" 0 0] h
    by blast
qed

lemma falsy_trimmed:
  "\<not> truthy v \<Longrightarrow> trim (toStr v) \<in> {''undefined'', ''null'', [], ''0'', ''false''}"
proof -
  have e: "trim ''undefined'' = ''undefined''" "trim ''null'' = ''null''"
    "trim (numberToString 0) = ''0''" "trim ''false'' = ''false''"
    by code_simp+
  assume "\<not> truthy v"
  then show ?thesis using e by (cases v) (auto simp: trim_empty)
qed

lemma orEmpty_key:
  assumes "trim (toStr v) = k"
    and "k \<notin> {''undefined'', ''null'', [], ''0'', ''false''}"
  shows "trim (toStr (orEmpty v)) = k"
proof (cases "truthy v")
  case True
  then show ?thesis using assms(1) by (simp add: orEmpty_def)
next
  case False
  then show ?thesis using falsy_trimmed[of v] assms by simp
qed

lemma blank_key: "isBlankValue v \<Longrightarrow> trim (toStr (orEmpty v)) = []"
proof (cases "truthy v")
  case True
  assume "isBlankValue v"
  then show ?thesis using True by (cases v) (simp_all add: orEmpty_def trim_whitespace)
next
  case False
  then show ?thesis by (simp add: orEmpty_def trim_empty)
qed

lemma in_take_conv: "i \<le> length ks \<Longrightarrow> x \<in> set (take i ks) \<longleftrightarrow> (\<exists>k<i. ks ! k = x)"
  by (auto simp: in_set_conv_nth)

lemma duplicateRows_explicit:
  "duplicateRows ks = filter (\<lambda>i. ks ! i \<noteq> [] \<and> (\<exists>k<i. ks ! k = ks ! i)) [0..<length ks]"
  unfolding duplicateRows_def by (rule filter_cong) (auto simp: in_take_conv)

lemma firstOccurrence_first: "k < firstOccurrence xs x \<Longrightarrow> xs ! k \<noteq> x"
  unfolding firstOccurrence_def using nth_length_takeWhile takeWhile_nth
  by (metis (mono_tags, lifting) nth_mem set_takeWhileD)

lemma firstOccurrence_before:
  assumes "i \<le> length xs" "x \<in> set (take i xs)"
  shows "firstOccurrence xs x < i"
proof -
  have "firstOccurrence (take i xs @ drop i xs) x = firstOccurrence (take i xs) x"
    by (rule firstOccurrence_append[OF assms(2)])
  then have "firstOccurrence xs x = firstOccurrence (take i xs) x" by simp
  also have "\<dots> < length (take i xs)" by (rule firstOccurrence_less[OF assms(2)])
  finally show ?thesis using assms(1) by simp
qed

lemma keys_A1_A1_B2:
  assumes "map (\<lambda>rowObj. trim (toStr (rowObj h))) ds = [''A1'', ''A1'', ''B2'']"
  shows "identityValues h ds = [''A1'', ''A1'', ''B2'']"
proof -
  have "length ds = 3" using assms by (metis length_map length_Cons list.size(3) numeral_3_eq_3)
  then obtain r0 r1 r2 where ds: "ds = [r0, r1, r2]"
    by (metis (no_types, opaque_lifting) length_0_conv length_Suc_conv numeral_3_eq_3)
  have k: "trim (toStr (r0 h)) = ''A1''" "trim (toStr (r1 h)) = ''A1''"
    "trim (toStr (r2 h)) = ''B2''"
    using assms ds by simp_all
  have "trim (toStr (orEmpty (r0 h))) = ''A1''" by (rule orEmpty_key[OF k(1)]) simp
  moreover have "trim (toStr (orEmpty (r1 h))) = ''A1''" by (rule orEmpty_key[OF k(2)]) simp
  moreover have "trim (toStr (orEmpty (r2 h))) = ''B2''" by (rule orEmpty_key[OF k(3)]) simp
  ultimately show ?thesis by (simp add: identityValues_def ds)
qed

lemma duplicateRows_A1_A1_B2: "duplicateRows [''A1'', ''A1'', ''B2''] = [1]"
  by code_simp

lemma firstOccurrence_A1: "firstOccurrence [''A1'', ''A1'', ''B2''] ''A1'' = 0"
  by code_simp

lemma unique_message_row2:
  "''Duplicate value found (also in row '' @ numberToString (int 0 + 2) @ '')''
     = ''Duplicate value found (also in row 2)''"
  by code_simp


lemma earlier_occurrence:
  assumes "i < length ks" "\<exists>k<i. ks ! k = ks ! i"
  shows "firstOccurrence ks (ks ! i) < i
         \<and> ks ! firstOccurrence ks (ks ! i) = ks ! i
         \<and> (\<forall>k < firstOccurrence ks (ks ! i). ks ! k \<noteq> ks ! i)"
proof -
  from assms(1) have i: "i \<le> length ks" by simp
  from assms(2) have m: "ks ! i \<in> set (take i ks)"
    by (simp only: in_take_conv[OF i])
  then have s: "ks ! i \<in> set ks" by (rule in_set_takeD)
  have 1: "firstOccurrence ks (ks ! i) < i" by (rule firstOccurrence_before[OF i m])
  have 2: "ks ! firstOccurrence ks (ks ! i) = ks ! i" by (rule firstOccurrence_nth[OF s])
  have 3: "\<forall>k < firstOccurrence ks (ks ! i). ks ! k \<noteq> ks ! i"
    by (intro allI impI) (rule firstOccurrence_first)
  from 1 2 3 show ?thesis by (intro conjI)
qed

text \<open>
  C4. In an identity column whose rows hold the trimmed values A1, A1, B2 the pass pushes
  exactly one error: at display row 3, naming display row 2. In general the flagged rows
  of an identity column are, in row order, exactly the rows whose value is not empty and
  equals the value of an earlier row, compared as strings; each error names the first
  row holding that value, which lies before the flagged row and is itself never flagged.
  A blank cell (absent, null, or white space only) has the empty value and is never flagged.
\<close>

theorem duplicate_flagged_at_later_row:
  "(isIdentityHeader h \<and> map (\<lambda>rowObj. trim (toStr (rowObj h))) ds = [''A1'', ''A1'', ''B2'']
      \<longrightarrow> checkUniqueColumn ds h j []
           = [\<lparr>cellAddress = getCellAddress 2 (int j), row = 3, column = h,
                message = ''Duplicate value found (also in row 2)'', type = unique\<rparr>])
   \<and> checkUniqueConstraints [idRow ''A1'', idRow ''A1'', idRow ''B2''] [''ID'']
       = [\<lparr>cellAddress = ''A3'', row = 3, column = ''ID'',
            message = ''Duplicate value found (also in row 2)'', type = unique\<rparr>]
   \<and> (isIdentityHeader h
      \<longrightarrow> checkUniqueColumn ds h j []
           = map (\<lambda>i. uniqueError h j i
                         (firstOccurrence (identityValues h ds) (identityValues h ds ! i)))
                 (filter (\<lambda>i. identityValues h ds ! i \<noteq> []
                              \<and> (\<exists>k<i. identityValues h ds ! k = identityValues h ds ! i))
                         [0..<length ds]))
   \<and> (i < length ds \<and> (\<exists>k<i. identityValues h ds ! k = identityValues h ds ! i)
      \<longrightarrow> firstOccurrence (identityValues h ds) (identityValues h ds ! i) < i
          \<and> identityValues h ds ! firstOccurrence (identityValues h ds) (identityValues h ds ! i)
              = identityValues h ds ! i
          \<and> (\<forall>k < firstOccurrence (identityValues h ds) (identityValues h ds ! i).
                identityValues h ds ! k \<noteq> identityValues h ds ! i))
   \<and> (i < length ds \<and> isBlankValue ((ds ! i) h) \<longrightarrow> identityValues h ds ! i = [])"
proof -
  let ?ks = "identityValues h ds"
  have A: "isIdentityHeader h \<and> map (\<lambda>rowObj. trim (toStr (rowObj h))) ds = [''A1'', ''A1'', ''B2'']
      \<longrightarrow> checkUniqueColumn ds h j []
           = [\<lparr>cellAddress = getCellAddress 2 (int j), row = 3, column = h,
                message = ''Duplicate value found (also in row 2)'', type = unique\<rparr>]"
  proof (rule impI)
    assume a: "isIdentityHeader h
      \<and> map (\<lambda>rowObj. trim (toStr (rowObj h))) ds = [''A1'', ''A1'', ''B2'']"
    then have "map (\<lambda>rowObj. trim (toStr (rowObj h))) ds = [''A1'', ''A1'', ''B2'']" ..
    then have ks: "?ks = [''A1'', ''A1'', ''B2'']" by (rule keys_A1_A1_B2)
    have "checkUniqueColumn ds h j [] = [uniqueError h j 1 0]"
      using a by (simp add: checkUniqueColumn_eq ks duplicateRows_A1_A1_B2 firstOccurrence_A1)
    then show "checkUniqueColumn ds h j []
           = [\<lparr>cellAddress = getCellAddress 2 (int j), row = 3, column = h,
                message = ''Duplicate value found (also in row 2)'', type = unique\<rparr>]"
      using unique_message_row2 by (simp add: uniqueError_def)
  qed
  have B: "checkUniqueConstraints [idRow ''A1'', idRow ''A1'', idRow ''B2''] [''ID'']
       = [\<lparr>cellAddress = ''A3'', row = 3, column = ''ID'',
            message = ''Duplicate value found (also in row 2)'', type = unique\<rparr>]"
    by code_simp
  have C: "isIdentityHeader h
      \<longrightarrow> checkUniqueColumn ds h j []
           = map (\<lambda>i. uniqueError h j i (firstOccurrence ?ks (?ks ! i)))
                 (filter (\<lambda>i. ?ks ! i \<noteq> [] \<and> (\<exists>k<i. ?ks ! k = ?ks ! i)) [0..<length ds])"
    using duplicateRows_explicit[of ?ks]
    by (simp add: checkUniqueColumn_eq identityValues_length)
  have D: "i < length ds \<and> (\<exists>k<i. ?ks ! k = ?ks ! i)
      \<longrightarrow> firstOccurrence ?ks (?ks ! i) < i
          \<and> ?ks ! firstOccurrence ?ks (?ks ! i) = ?ks ! i
          \<and> (\<forall>k < firstOccurrence ?ks (?ks ! i). ?ks ! k \<noteq> ?ks ! i)"
  proof (rule impI)
    assume a: "i < length ds \<and> (\<exists>k<i. ?ks ! k = ?ks ! i)"
    then have i: "i < length ?ks" and e: "\<exists>k<i. ?ks ! k = ?ks ! i"
      by (simp_all only: identityValues_length)
    show "firstOccurrence ?ks (?ks ! i) < i
          \<and> ?ks ! firstOccurrence ?ks (?ks ! i) = ?ks ! i
          \<and> (\<forall>k < firstOccurrence ?ks (?ks ! i). ?ks ! k \<noteq> ?ks ! i)"
      by (rule earlier_occurrence[OF i e])
  qed
  have E: "i < length ds \<and> isBlankValue ((ds ! i) h) \<longrightarrow> ?ks ! i = []"
    by (simp add: identityValues_nth blank_key)
  show ?thesis by (rule conjI[OF A conjI[OF B conjI[OF C conjI[OF D E]]]])
qed

theorem duplicate_flagged_at_later_row_witness:
  "(isIdentityHeader ''ID''
     \<and> map (\<lambda>rowObj. trim (toStr (rowObj ''ID''))) [idRow ''A1'', idRow '' A1 '', idRow ''B2'']
         = [''A1'', ''A1'', ''B2''])
   \<and> checkUniqueColumn [idRow ''A1'', idRow '' A1 '', idRow ''B2''] ''ID'' 0 []
       = [\<lparr>cellAddress = getCellAddress 2 (int 0), row = 3, column = ''ID'',
            message = ''Duplicate value found (also in row 2)'', type = unique\<rparr>]
   \<and> (1 < length [idRow ''A1'', idRow '' A1 '', idRow ''B2'']
       \<and> (\<exists>k<1. identityValues ''ID'' [idRow ''A1'', idRow '' A1 '', idRow ''B2''] ! k
                 = identityValues ''ID'' [idRow ''A1'', idRow '' A1 '', idRow ''B2''] ! 1))
   \<and> firstOccurrence (identityValues ''ID'' [idRow ''A1'', idRow '' A1 '', idRow ''B2''])
        (identityValues ''ID'' [idRow ''A1'', idRow '' A1 '', idRow ''B2''] ! 1) < 1
   \<and> (0 < length [idRow ''  ''] \<and> isBlankValue (([idRow ''  ''] ! 0) ''ID''))
   \<and> identityValues ''ID'' [idRow ''  ''] ! 0 = []"
proof -
  have a: "isIdentityHeader ''ID''" by code_simp
  have b: "map (\<lambda>rowObj. trim (toStr (rowObj ''ID''))) [idRow ''A1'', idRow '' A1 '', idRow ''B2'']
         = [''A1'', ''A1'', ''B2'']"
    by code_simp
  have c: "identityValues ''ID'' [idRow ''A1'', idRow '' A1 '', idRow ''B2''] ! 0
         = identityValues ''ID'' [idRow ''A1'', idRow '' A1 '', idRow ''B2''] ! 1"
    by code_simp
  have d: "isBlankValue (([idRow ''  ''] ! 0) ''ID'')" by code_simp
  have c': "\<exists>k<1. identityValues ''ID'' [idRow ''A1'', idRow '' A1 '', idRow ''B2''] ! k
                 = identityValues ''ID'' [idRow ''A1'', idRow '' A1 '', idRow ''B2''] ! 1"
    using c by auto
  have l: "(1::nat) < length [idRow ''A1'', idRow '' A1 '', idRow ''B2'']"
    "0 < length [idRow ''  '']" by simp_all
  show ?thesis
    using duplicate_flagged_at_later_row
        [of "''ID''" "[idRow ''A1'', idRow '' A1 '', idRow ''B2'']" 0 1]
      duplicate_flagged_at_later_row [of "''ID''" "[idRow ''  '']" 0 0]
      a b c' d l
    by blast
qed

section \<open>Search\<close>

text \<open>
  C9. A query that is empty or white space only gives the empty result whatever the index
  would match. Search has no failure value: for every other query the result is the list of
  the items the index returns, so a query the index does not match gives the empty result
  as well.
\<close>

theorem blank_query_gives_empty_result:
  "(list_all isWhiteSpace query \<longrightarrow> search fuse query = [])
   \<and> search fuse [] = []
   \<and> (fuse query = [] \<longrightarrow> search fuse query = [])
   \<and> (trim query \<noteq> [] \<longrightarrow> search fuse query = map item (fuse query))"
  by (simp add: search_def trim_whitespace trim_empty)

theorem blank_query_gives_empty_result_witness:
  "list_all isWhiteSpace ''   '' \<and> search oneHitFuse ''   '' = []
   \<and> noHitFuse ''zzz'' = [] \<and> search noHitFuse ''zzz'' = []
   \<and> trim ''alice'' \<noteq> [] \<and> search oneHitFuse ''alice'' = [''row'']"
proof -
  have a: "list_all isWhiteSpace ''   ''" by code_simp
  have b: "trim ''alice'' \<noteq> []" by code_simp
  show ?thesis
    using blank_query_gives_empty_result [of "''   ''" oneHitFuse]
      blank_query_gives_empty_result [of "''zzz''" noHitFuse]
      blank_query_gives_empty_result [of "''alice''" oneHitFuse] a b
    by (simp add: noHitFuse_def oneHitFuse_def)
qed

section \<open>The outcome of processing\<close>

lemma mset_insertSorted: "mset (insertSorted cmp x xs) = add_mset x (mset xs)"
  by (induction xs) simp_all

lemma mset_sort_by: "mset (sort_by cmp xs) = mset xs"
  unfolding sort_by_def by (induction xs) (simp_all add: mset_insertSorted)


lemma presentHeaders_enumerate:
  "concat (map (\<lambda>(index, c). case c of Str header \<Rightarrow> [(index, header)] | _ \<Rightarrow> [])
               (enumerate n (map Str hs)))
     = enumerate n hs"
  by (induction hs arbitrary: n) simp_all

lemma presentHeaders_strings: "presentHeaders (map Str hs) = enumerate 0 hs"
  by (simp add: presentHeaders_def presentHeaders_enumerate)

lemma toObjectSparse_strings: "toObjectSparse (map Str hs) r = toObject hs r"
  by (simp add: toObjectSparse_def toObject_def presentHeaders_strings)

lemma allErrorsSparse_strings: "allErrorsSparse pd ds (map Str hs) = allErrors pd ds hs"
  by (simp add: allErrorsSparse_def allErrors_def validateRowSparse_def validateRow_def
      checkUniqueConstraintsSparse_def checkUniqueConstraints_def presentHeaders_strings)

lemma findNameLike_strings:
  "findNameLike (map Str hs) =
     (case find (\<lambda>h. includes_str (toLowerCase h) ''name''
                       \<or> includes_str (toLowerCase h) ''title'') hs of
        Some h \<Rightarrow> Found h
      | None \<Rightarrow> NotFound)"
  by (induction hs) simp_all

lemma nameColumnSparse_strings: "nameColumnSparse (map Str hs) = Some (nameColumn hs)"
  by (cases hs)
     (simp_all add: nameColumnSparse_def nameColumn_def findNameLike_strings
        split: option.splits)

lemma strings_not_nonString: "\<not> list_ex nonStringValue (map Str hs)"
  by (simp add: list_ex_iff)

lemma cells_of_strings:
  "map (\<lambda>c. case c of Str header \<Rightarrow> rowObj header | _ \<Rightarrow> Undefined) (map Str hs)
     = map (\<lambda>header. rowObj header) hs"
  by simp

lemma processFile_resolves:
  assumes "length (SheetNames wb) \<le> 1" "jsonData wb = map Str hs # dataRows"
  shows "processFile pd lc wb =
     (if allErrors pd (map (toObject hs) dataRows) hs \<noteq> []
      then Resolved \<lparr>data = None, errors = allErrors pd (map (toObject hs) dataRows) hs\<rparr>
      else Resolved
             \<lparr>data = Some \<lparr>headers = map Str hs,
                     rows = map (\<lambda>rowObj. map (\<lambda>header. rowObj header) hs)
                                (sortedData lc hs (map (toObject hs) dataRows)),
                     originalData = sortedData lc hs (map (toObject hs) dataRows)\<rparr>,
              errors = []\<rparr>)"
proof -
  have o: "map (toObjectSparse (map Str hs)) dataRows = map (toObject hs) dataRows"
    by (simp add: toObjectSparse_strings)
  show ?thesis
    using assms strings_not_nonString[of hs]
    by (simp add: processFile_def Let_def o allErrorsSparse_strings nameColumnSparse_strings
        sortedData_def cells_of_strings)
qed

lemma processFile_resolved_sheets:
  "processFile pd lc wb = Resolved r \<Longrightarrow> length (SheetNames wb) \<le> 1"
  by (simp add: processFile_def split: if_splits)






section \<open>The order of the error list\<close>

lemma sorted_concat_blocks:
  assumes "\<And>i x. i < n \<Longrightarrow> x \<in> set (f i) \<Longrightarrow> g x = c i"
    and "\<And>i k. i \<le> k \<Longrightarrow> c i \<le> (c k :: int)"
  shows "sorted (map g (concat (map f [0..<n])))"
  using assms(1)
proof (induction n)
  case 0
  show ?case by simp
next
  case (Suc n)
  have ih: "sorted (map g (concat (map f [0..<n])))"
    by (rule Suc.IH) (simp add: Suc.prems)
  have last: "sorted (map g (f n))"
  proof -
    have "map g (f n) = replicate (length (f n)) (c n)"
      by (rule nth_equalityI) (simp_all add: Suc.prems)
    then show ?thesis by (simp add: sorted_replicate)
  qed
  have cross: "\<forall>x \<in> set (map g (concat (map f [0..<n]))). \<forall>y \<in> set (map g (f n)). x \<le> y"
  proof (intro ballI)
    fix x y assume "x \<in> set (map g (concat (map f [0..<n])))" "y \<in> set (map g (f n))"
    then obtain i a b where "i < n" "a \<in> set (f i)" "x = g a" "b \<in> set (f n)" "y = g b"
      by auto
    then have "x = c i" "y = c n" using Suc.prems by auto
    then show "x \<le> y" using assms(2)[of i n] \<open>i < n\<close> by simp
  qed
  show ?case using ih last cross by (simp add: sorted_append)
qed

lemma checkUniqueColumn_rows_ascending:
  "sorted_wrt (<) (map row (checkUniqueColumn ds h j []))"
proof -
  have "sorted_wrt (<) (duplicateRows (identityValues h ds))"
    unfolding duplicateRows_def by (rule sorted_wrt_filter) simp
  then have "sorted_wrt (<) (map (\<lambda>i. int i + 2) (duplicateRows (identityValues h ds)))"
    by (simp add: sorted_wrt_map)
  moreover have "map row (checkUniqueColumn ds h j [])
      = (if isIdentityHeader h
         then map (\<lambda>i. int i + 2) (duplicateRows (identityValues h ds)) else [])"
    by (simp add: checkUniqueColumn_eq uniqueError_def comp_def)
  ultimately show ?thesis by simp
qed

lemma checkUniqueColumn_fields:
  assumes "e \<in> set (checkUniqueColumn ds h j [])"
  shows "isIdentityHeader h \<and> type e = unique \<and> column e = h
         \<and> cellAddress e = getCellAddress (row e - 1) (int j)"
proof -
  obtain i where "e = uniqueError h j i
      (firstOccurrence (identityValues h ds) (identityValues h ds ! i))"
    and "isIdentityHeader h"
    using checkUniqueColumn_mem[OF assms] by blast
  then show ?thesis by (simp add: uniqueError_def add.commute)
qed

lemma rowByRow_rows_ascending:
  "sorted (map row
     (concat (map (\<lambda>i. concat (map (\<lambda>j. validateCell pd (ds ! i) i (hs ! j) j [])
                                     [0..<length hs]))
                  [0..<length ds])))"
proof (rule sorted_concat_blocks[where c = "\<lambda>i. int i + 2"])
  fix i x
  assume "x \<in> set (concat (map (\<lambda>j. validateCell pd (ds ! i) i (hs ! j) j []) [0..<length hs]))"
  then obtain j where "x \<in> set (validateCell pd (ds ! i) i (hs ! j) j [])" by auto
  then show "row x = int i + 2" using validateCell_address by blast
next
  fix i k :: nat assume "i \<le> k"
  then show "int i + 2 \<le> int k + 2" by simp
qed

text \<open>
  C7. The error list is the errors of the cells in row-major order (row by row, and within
  a row column by column, each cell's errors carrying that cell's address and display row),
  followed by the uniqueness errors, column by column in header order and within a column
  in ascending row order. Display rows never decrease along the first part, and
  \<open>processFile\<close> returns this list as it is.
\<close>

theorem errors_row_major_then_uniqueness:
  "allErrors parsesAsDate ds hs
     = concat (map (\<lambda>i. concat (map (\<lambda>j. validateCell parsesAsDate (ds ! i) i (hs ! j) j [])
                                       [0..<length hs]))
                   [0..<length ds])
       @ concat (map (\<lambda>j. checkUniqueColumn ds (hs ! j) j []) [0..<length hs])
   \<and> (\<forall>e \<in> set (validateCell parsesAsDate r i h j []).
         cellAddress e = getCellAddress (int i + 1) (int j) \<and> row e = int i + 2
         \<and> column e = h \<and> type e \<noteq> unique)
   \<and> sorted (map row
        (concat (map (\<lambda>i. concat (map (\<lambda>j. validateCell parsesAsDate (ds ! i) i (hs ! j) j [])
                                        [0..<length hs]))
                     [0..<length ds])))
   \<and> (\<forall>e \<in> set (checkUniqueColumn ds h j []).
         isIdentityHeader h \<and> type e = unique \<and> column e = h
         \<and> cellAddress e = getCellAddress (row e - 1) (int j))
   \<and> sorted_wrt (<) (map row (checkUniqueColumn ds h j []))
   \<and> (processFile parsesAsDate localeCompare wb = Resolved res
        \<and> jsonData wb = map Str hs # dataRows
       \<longrightarrow> errors res = allErrors parsesAsDate (map (toObject hs) dataRows) hs)"
proof -
  have A: "\<forall>e \<in> set (validateCell parsesAsDate r i h j []).
         cellAddress e = getCellAddress (int i + 1) (int j) \<and> row e = int i + 2
         \<and> column e = h \<and> type e \<noteq> unique"
    using validateCell_address by blast
  have B: "\<forall>e \<in> set (checkUniqueColumn ds h j []).
         isIdentityHeader h \<and> type e = unique \<and> column e = h
         \<and> cellAddress e = getCellAddress (row e - 1) (int j)"
    using checkUniqueColumn_fields by blast
  have C: "processFile parsesAsDate localeCompare wb = Resolved res
        \<and> jsonData wb = map Str hs # dataRows
       \<longrightarrow> errors res = allErrors parsesAsDate (map (toObject hs) dataRows) hs"
  proof (rule impI)
    assume a: "processFile parsesAsDate localeCompare wb = Resolved res
        \<and> jsonData wb = map Str hs # dataRows"
    then have w: "length (SheetNames wb) \<le> 1" "jsonData wb = map Str hs # dataRows"
      using processFile_resolved_sheets by blast+
    show "errors res = allErrors parsesAsDate (map (toObject hs) dataRows) hs"
      using a unfolding processFile_resolves[OF w] by (auto split: if_splits)
  qed
  show ?thesis
    by (rule conjI[OF allErrors_index conjI[OF A conjI[OF rowByRow_rows_ascending
          conjI[OF B conjI[OF checkUniqueColumn_rows_ascending C]]]]])
qed

theorem errors_row_major_then_uniqueness_witness:
  "validateCell acceptAllDates bobBadRow 1 ''Email'' 1 [] \<noteq> []
   \<and> list_all (\<lambda>e. cellAddress e = ''B3'' \<and> row e = 3)
                (validateCell acceptAllDates bobBadRow 1 ''Email'' 1 [])
   \<and> checkUniqueColumn [aliceRow, bobBadRow] ''ID'' 3 [] \<noteq> []
   \<and> list_all (\<lambda>e. type e = unique \<and> column e = ''ID'')
                (checkUniqueColumn [aliceRow, bobBadRow] ''ID'' 3 [])
   \<and> map cellAddress (allErrors acceptAllDates [aliceRow, bobBadRow] scenarioHeaders)
       = [''B3'', ''C3'', ''D3'']
   \<and> map_option (map cellAddress)
         (resolvedErrors (processFile acceptAllDates codeUnitCompare badWorkbook))
       = Some [''B3'', ''C3'', ''D3'']"
proof -
  have a: "validateCell acceptAllDates bobBadRow 1 ''Email'' 1 [] \<noteq> []" by code_simp
  have b: "checkUniqueColumn [aliceRow, bobBadRow] ''ID'' 3 [] \<noteq> []" by code_simp
  have c: "getCellAddress (int 1 + 1) (int 1) = ''B3''" by code_simp
  have d: "map cellAddress (allErrors acceptAllDates [aliceRow, bobBadRow] scenarioHeaders)
       = [''B3'', ''C3'', ''D3'']" by code_simp
  let ?bad = "[[Str ''Alice'', Str ''a@x.com'', Str ''1234567890'', Str ''1''],
               [Str ''bob'', Str ''bad'', Str ''123'', Str ''1'']]"
  have w: "length (SheetNames badWorkbook) \<le> 1"
    "jsonData badWorkbook = map Str scenarioHeaders # ?bad"
    by (simp_all add: badWorkbook_def)
  have o: "map (toObject scenarioHeaders) ?bad = [aliceRow, bobBadRow]"
    by (simp add: aliceRow_def bobBadRow_def)
  obtain res where res: "processFile acceptAllDates codeUnitCompare badWorkbook = Resolved res"
    using processFile_resolves[OF w, of acceptAllDates codeUnitCompare] by (auto split: if_splits)
  have "errors res = allErrors acceptAllDates (map (toObject scenarioHeaders) ?bad) scenarioHeaders"
    using errors_row_major_then_uniqueness
      [where parsesAsDate = acceptAllDates and localeCompare = codeUnitCompare
         and wb = badWorkbook and res = res and hs = scenarioHeaders and dataRows = ?bad]
      res w
    by blast
  then have p: "map_option (map cellAddress)
         (resolvedErrors (processFile acceptAllDates codeUnitCompare badWorkbook))
       = Some [''B3'', ''C3'', ''D3'']"
    using res o d by (simp add: resolvedErrors_def)
  show ?thesis
    using errors_row_major_then_uniqueness
      [where parsesAsDate = acceptAllDates and ds = "[aliceRow, bobBadRow]"
         and hs = scenarioHeaders and r = bobBadRow and i = 1 and h = "''Email''" and j = 1]
      errors_row_major_then_uniqueness
      [where parsesAsDate = acceptAllDates and ds = "[aliceRow, bobBadRow]"
         and hs = scenarioHeaders and r = bobBadRow and i = 1 and h = "''ID''" and j = 3]
      a b c d p
    by (simp add: list_all_iff)
qed

section \<open>Clean data has no errors\<close>

lemma not_blank_not_empty:
  "\<not> isBlankValue v \<Longrightarrow> v \<noteq> Undefined \<and> v \<noteq> Null \<and> v \<noteq> Str []"
  by (cases v) auto

lemma validateCell_clean:
  assumes "cellSatisfiesRules pd h (r h)"
  shows "validateCell pd r i h j [] = []"
proof -
  have nb: "r h \<noteq> Undefined" "r h \<noteq> Null" "r h \<noteq> Str []"
    using assms not_blank_not_empty[of "r h"] by (simp_all add: cellSatisfiesRules_def)
  have "filter (\<lambda>k. ruleApplies k h \<and> \<not> rulePasses pd k (trim (toStr (r h))))
          [email, phone, numeric, date] = []"
    using assms by (simp only: filter_empty_conv cellSatisfiesRules_def list_all_iff)
      (meson)
  then show ?thesis by (simp only: validateCell_rules[of r h, OF nb] list.map)
qed

lemma nonempty_key_truthy:
  "trim (toStr (orEmpty v)) \<noteq> [] \<Longrightarrow> trim (toStr (orEmpty v)) = trim (toStr v)"
  by (cases "truthy v") (simp_all add: orEmpty_def trim_empty)

lemma duplicateRows_clean:
  assumes "\<forall>r \<in> set ds. \<not> isBlankValue (r h)" "noIdentityDuplicate ds h"
  shows "duplicateRows (identityValues h ds) = []"
proof -
  let ?ks = "identityValues h ds"
  have d: "distinct (map (\<lambda>rowObj. trim (toStr (rowObj h))) ds)"
    using assms by (simp add: noIdentityDuplicate_def)
  have "\<forall>i \<in> set [0..<length ?ks]. \<not> (?ks ! i \<noteq> [] \<and> (\<exists>k<i. ?ks ! k = ?ks ! i))"
  proof (intro ballI notI)
    fix i assume i: "i \<in> set [0..<length ?ks]"
      and a: "?ks ! i \<noteq> [] \<and> (\<exists>k<i. ?ks ! k = ?ks ! i)"
    then obtain k where k: "k < i" "?ks ! k = ?ks ! i" by blast
    from i have il: "i < length ds" by (simp add: identityValues_length)
    with k have kl: "k < length ds" by simp
    have "?ks ! i = trim (toStr ((ds ! i) h))"
      using a il nonempty_key_truthy[of "(ds ! i) h"] by (simp add: identityValues_nth)
    moreover have "?ks ! k = trim (toStr ((ds ! k) h))"
      using a k kl nonempty_key_truthy[of "(ds ! k) h"] by (simp add: identityValues_nth)
    ultimately have "map (\<lambda>rowObj. trim (toStr (rowObj h))) ds ! k
        = map (\<lambda>rowObj. trim (toStr (rowObj h))) ds ! i"
      using k il kl by simp
    then have "k = i" using nth_eq_iff_index_eq[OF d, of k i] il kl by simp
    then show False using k by simp
  qed
  then show ?thesis
    unfolding duplicateRows_explicit by (simp only: filter_empty_conv) 
qed

text \<open>
  C2. If every cell is non-blank and passes every rule its header's name selects, and no
  identity column holds the same trimmed stringified non-blank value in two rows, then
  validation returns the empty error list.
\<close>

theorem clean_data_has_no_errors:
  assumes "\<forall>r \<in> set ds. \<forall>h \<in> set hs. cellSatisfiesRules parsesAsDate h (r h)"
    and "\<forall>h \<in> set hs. isIdentityHeader h \<longrightarrow> noIdentityDuplicate ds h"
  shows "allErrors parsesAsDate ds hs = []"
proof -
  have cells: "\<And>i j. i < length ds \<Longrightarrow> j < length hs \<Longrightarrow>
      validateCell parsesAsDate (ds ! i) i (hs ! j) j [] = []"
    using assms(1) by (intro validateCell_clean) simp
  have nb: "\<And>h. h \<in> set hs \<Longrightarrow> \<forall>r \<in> set ds. \<not> isBlankValue (r h)"
    using assms(1) by (simp add: cellSatisfiesRules_def)
  have cols: "\<And>j. j < length hs \<Longrightarrow> checkUniqueColumn ds (hs ! j) j [] = []"
    using assms(2) nb by (simp add: checkUniqueColumn_eq duplicateRows_clean)
  show ?thesis
    unfolding allErrors_index using cells cols by simp
qed

theorem clean_data_has_no_errors_witness:
  "list_all (\<lambda>r. list_all (\<lambda>h. cellSatisfiesRules acceptAllDates h (r h)) scenarioHeaders)
            [bobRow, aliceRow]
   \<and> isIdentityHeader ''ID''
   \<and> noIdentityDuplicate [bobRow, aliceRow] ''ID''
   \<and> allErrors acceptAllDates [bobRow, aliceRow] scenarioHeaders = []"
proof -
  have a: "\<forall>r \<in> set [bobRow, aliceRow]. \<forall>h \<in> set scenarioHeaders.
      cellSatisfiesRules acceptAllDates h (r h)"
    by code_simp
  have b: "\<forall>h \<in> set scenarioHeaders.
        isIdentityHeader h \<longrightarrow> noIdentityDuplicate [bobRow, aliceRow] h"
    by code_simp
  have c: "isIdentityHeader ''ID''" by code_simp
  have d: "noIdentityDuplicate [bobRow, aliceRow] ''ID''" by code_simp
  have e: "allErrors acceptAllDates [bobRow, aliceRow] scenarioHeaders = []"
    by (rule clean_data_has_no_errors [of "[bobRow, aliceRow]" scenarioHeaders acceptAllDates,
          OF a b])
  show ?thesis using a c d e by (simp add: list_all_iff)
qed

section \<open>Sorting\<close>

lemma nameColumn_first_match:
  assumes "hs = pre @ h # post" "\<forall>g \<in> set pre. \<not> isNameLike g" "isNameLike h"
  shows "nameColumn hs = h"
proof -
  have "find isNameLike (pre @ h # post) = Some h"
    using assms(2,3) by (induction pre) simp_all
  then show ?thesis
    using assms(1) by (simp add: nameColumn_def isNameLike_def[abs_def])
qed

lemma nameColumn_fallback:
  assumes "hs \<noteq> []" "\<forall>g \<in> set hs. \<not> isNameLike g"
  shows "nameColumn hs = hd hs"
proof -
  have "find isNameLike hs = None" using assms(2) by (simp add: find_None_iff)
  then show ?thesis
    using assms(1) by (cases hs) (simp_all add: nameColumn_def isNameLike_def[abs_def])
qed

lemma set_insertSorted: "set (insertSorted cmp x xs) = insert x (set xs)"
  by (induction xs) auto

lemma sorted_insertSorted:
  assumes total: "\<And>a b. cmp a b > 0 \<Longrightarrow> cmp b a \<le> (0::int)"
    and trans: "\<And>a b c. cmp a b \<le> 0 \<Longrightarrow> cmp b c \<le> 0 \<Longrightarrow> cmp a c \<le> 0"
    and "sorted_wrt (\<lambda>a b. cmp a b \<le> 0) xs"
  shows "sorted_wrt (\<lambda>a b. cmp a b \<le> 0) (insertSorted cmp x xs)"
  using assms(3)
proof (induction xs)
  case Nil
  show ?case by simp
next
  case (Cons y ys)
  show ?case
  proof (cases "cmp x y \<le> 0")
    case True
    have "\<forall>z \<in> set ys. cmp x z \<le> 0"
      using Cons.prems True trans by auto
    then show ?thesis using True Cons.prems by simp
  next
    case False
    then have "cmp y x \<le> 0" using total[of x y] by simp
    then show ?thesis using False Cons by (auto simp: set_insertSorted)
  qed
qed

lemma sorted_sort_by:
  assumes "\<And>a b. cmp a b > 0 \<Longrightarrow> cmp b a \<le> (0::int)"
    and "\<And>a b c. cmp a b \<le> 0 \<Longrightarrow> cmp b c \<le> 0 \<Longrightarrow> cmp a c \<le> 0"
  shows "sorted_wrt (\<lambda>a b. cmp a b \<le> 0) (sort_by cmp xs)"
  unfolding sort_by_def
  by (induction xs) (simp_all add: sorted_insertSorted[OF assms])

lemma filter_insertSorted:
  assumes "\<And>y. P x \<Longrightarrow> P y \<Longrightarrow> cmp x y \<le> (0::int)"
  shows "filter P (insertSorted cmp x xs) = (if P x then x # filter P xs else filter P xs)"
  using assms by (induction xs) auto

lemma filter_sort_by:
  assumes "\<And>x y. P x \<Longrightarrow> P y \<Longrightarrow> cmp x y \<le> (0::int)"
  shows "filter P (sort_by cmp xs) = filter P xs"
  unfolding sort_by_def
  by (induction xs) (simp_all add: filter_insertSorted[of P _ cmp, OF assms])

lemma consistent_total:
  "consistentComparator lc \<Longrightarrow> lc a b > 0 \<Longrightarrow> lc b a \<le> 0"
  unfolding consistentComparator_def by (metis less_le_not_le linorder_not_less)

lemma consistent_trans:
  "consistentComparator lc \<Longrightarrow> lc a b \<le> 0 \<Longrightarrow> lc b c \<le> 0 \<Longrightarrow> lc a c \<le> 0"
  unfolding consistentComparator_def by blast

lemma consistent_equivalent:
  assumes "consistentComparator lc" "lc a k = 0" "lc b k = 0"
  shows "lc a b \<le> 0"
proof -
  have "\<not> lc b k < 0" using assms(3) by simp
  then have "\<not> lc k b > 0" using assms(1) unfolding consistentComparator_def by blast
  then have "lc k b \<le> 0" by simp
  moreover have "lc a k \<le> 0" using assms(2) by simp
  ultimately show ?thesis using consistent_trans[OF assms(1)] by blast
qed

lemma codeUnitCompare_consistent: "consistentComparator codeUnitCompare"
  unfolding consistentComparator_def codeUnitCompare_def by auto

lemma sortKey_falsy:
  "sortKey col a = (if truthy (a col) then toLowerCase (toStr (a col)) else [])"
  by (simp add: sortKey_def orEmpty_def toLowerCase_def)

text \<open>
  With a consistent comparator there is only one arrangement of the records that is
  ascending and keeps records with equivalent keys in their input order, so every stable
  sort returns what the insertion sort of the model returns.
\<close>

lemma stable_sorted_unique:
  fixes cmp :: "'a \<Rightarrow> 'a \<Rightarrow> int"
  assumes refl: "\<And>a. cmp a a = 0"
    and sym: "\<And>a b. (cmp a b < 0) = (cmp b a > 0)"
    and "sorted_wrt (\<lambda>a b. cmp a b \<le> 0) xs" "sorted_wrt (\<lambda>a b. cmp a b \<le> 0) ys"
    and "\<And>k. filter (\<lambda>a. cmp a k = 0) xs = filter (\<lambda>a. cmp a k = 0) ys"
  shows "xs = ys"
  using assms(3-5)
proof (induction xs arbitrary: ys)
  case Nil
  show ?case
  proof (cases ys)
    case Nil
    then show ?thesis by simp
  next
    case (Cons y ys')
    have "filter (\<lambda>a. cmp a y = 0) [] = filter (\<lambda>a. cmp a y = 0) ys" by (rule Nil.prems(3))
    then show ?thesis using Cons refl by simp
  qed
next
  case (Cons x xs')
  let ?P = "\<lambda>k a. cmp a k = 0"
  have fx: "filter (?P x) (x # xs') = filter (?P x) ys"
    by (rule Cons.prems(3))
  have px: "filter (?P x) (x # xs') = x # filter (?P x) xs'"
    by (simp add: refl)
  have "ys \<noteq> []"
  proof
    assume "ys = []"
    then show False using fx px by simp
  qed
  then obtain y ys' where ys: "ys = y # ys'" by (cases ys) simp_all
  have "x \<in> set (filter (?P x) (x # xs'))" unfolding px by simp
  then have "x \<in> set (filter (?P x) ys)" unfolding fx .
  then have xin: "x \<in> set ys" using filter_is_subset[of "?P x" ys] by blast
  have fy: "filter (?P y) (x # xs') = filter (?P y) (y # ys')"
    using Cons.prems(3)[of y] ys by simp
  have py: "filter (?P y) (y # ys') = y # filter (?P y) ys'"
    by (simp add: refl)
  have "y \<in> set (filter (?P y) (x # xs'))" unfolding fy py by simp
  then have yin: "y \<in> set (x # xs')" using filter_is_subset[of "?P y" "x # xs'"] by blast
  have xy: "cmp x y \<le> 0"
  proof (cases "y = x")
    case True
    then show ?thesis by (simp add: refl)
  next
    case False
    then have "y \<in> set xs'" using yin by simp
    then show ?thesis using Cons.prems(1) by simp
  qed
  have yx: "cmp y x \<le> 0"
  proof (cases "x = y")
    case True
    then show ?thesis by (simp add: refl)
  next
    case False
    then have "x \<in> set ys'" using xin ys by simp
    then show ?thesis using Cons.prems(2) ys by simp
  qed
  have "\<not> cmp y x < 0" using sym[of y x] xy by simp
  then have e: "cmp y x = 0" using yx by simp
  have "filter (?P x) (y # ys') = y # filter (?P x) ys'" using e by simp
  then have "x # filter (?P x) xs' = y # filter (?P x) ys'"
    using fx px ys by simp
  then have h: "x = y" by simp
  have "xs' = ys'"
  proof (rule Cons.IH)
    show "sorted_wrt (\<lambda>a b. cmp a b \<le> 0) xs'" using Cons.prems(1) by simp
    show "sorted_wrt (\<lambda>a b. cmp a b \<le> 0) ys'" using Cons.prems(2) ys by simp
    fix k
    have t: "filter (?P k) (x # xs') = filter (?P k) (x # ys')"
      using Cons.prems(3)[of k] ys h by simp
    show "filter (?P k) xs' = filter (?P k) ys'"
    proof (cases "cmp x k = 0")
      case True
      then show ?thesis using t by simp
    next
      case False
      then show ?thesis using t by simp
    qed
  qed
  then show ?case using ys h by simp
qed

lemma sort_result_determined:
  assumes c: "consistentComparator lc"
    and s: "sorted_wrt (\<lambda>a b. lc (key a) (key b) \<le> 0) ys"
    and f: "\<And>k. filter (\<lambda>a. lc (key a) k = 0) ys = filter (\<lambda>a. lc (key a) k = 0) xs"
  shows "ys = sort_by (\<lambda>a b. lc (key a) (key b)) xs"
proof (rule stable_sorted_unique[where cmp = "\<lambda>a b. lc (key a) (key b)"])
  fix a show "lc (key a) (key a) = 0" using c by (simp add: consistentComparator_def)
next
  fix a b show "(lc (key a) (key b) < 0) = (0 < lc (key b) (key a))"
    using c unfolding consistentComparator_def by blast
next
  show "sorted_wrt (\<lambda>a b. lc (key a) (key b) \<le> 0) ys" by (rule s)
next
  show "sorted_wrt (\<lambda>a b. lc (key a) (key b) \<le> 0) (sort_by (\<lambda>a b. lc (key a) (key b)) xs)"
  proof (rule sorted_sort_by)
    fix a b assume "lc (key a) (key b) > 0"
    then show "lc (key b) (key a) \<le> 0" by (rule consistent_total[OF c])
  next
    fix a b c' assume "lc (key a) (key b) \<le> 0" "lc (key b) (key c') \<le> 0"
    then show "lc (key a) (key c') \<le> 0" by (rule consistent_trans[OF c])
  qed
next
  fix k
  have "filter (\<lambda>a. lc (key a) (key k) = 0) (sort_by (\<lambda>a b. lc (key a) (key b)) xs)
      = filter (\<lambda>a. lc (key a) (key k) = 0) xs"
  proof (rule filter_sort_by)
    fix x y assume "lc (key x) (key k) = 0" "lc (key y) (key k) = 0"
    then show "lc (key x) (key y) \<le> 0" by (rule consistent_equivalent[OF c])
  qed
  then show "filter (\<lambda>a. lc (key a) (key k) = 0) ys
      = filter (\<lambda>a. lc (key a) (key k) = 0) (sort_by (\<lambda>a b. lc (key a) (key b)) xs)"
    using f[of "key k"] by simp
qed

text \<open>
  What the sort keeps of its description: the sort column is the first header, in header
  order, whose name contains \<open>name\<close> or \<open>title\<close> ignoring case, and the first header when
  none does; with a consistent comparator the sorted records are in ascending order of
  their keys, hold the same records, and records with equivalent keys keep their input
  order; when validation gives no error, \<open>processFile\<close> resolves with these records.
\<close>

lemma sortedData_properties:
  "(hs = pre @ h # post \<and> (\<forall>g \<in> set pre. \<not> isNameLike g) \<and> isNameLike h
      \<longrightarrow> nameColumn hs = h)
   \<and> (hs \<noteq> [] \<and> (\<forall>g \<in> set hs. \<not> isNameLike g) \<longrightarrow> nameColumn hs = hd hs)
   \<and> mset (sortedData localeCompare hs ds) = mset ds
   \<and> (consistentComparator localeCompare
      \<longrightarrow> sorted_wrt (\<lambda>a b. localeCompare (sortKey (nameColumn hs) a)
                                          (sortKey (nameColumn hs) b) \<le> 0)
                     (sortedData localeCompare hs ds)
          \<and> filter (\<lambda>a. localeCompare (sortKey (nameColumn hs) a) k = 0)
                    (sortedData localeCompare hs ds)
              = filter (\<lambda>a. localeCompare (sortKey (nameColumn hs) a) k = 0) ds)
   \<and> (length (SheetNames wb) \<le> 1 \<and> jsonData wb = map Str hs # dataRows
        \<and> allErrors parsesAsDate (map (toObject hs) dataRows) hs = []
      \<longrightarrow> processFile parsesAsDate localeCompare wb
           = Resolved
               \<lparr>data = Some \<lparr>headers = map Str hs,
                       rows = map (\<lambda>rowObj. map (\<lambda>header. rowObj header) hs)
                                  (sortedData localeCompare hs (map (toObject hs) dataRows)),
                       originalData = sortedData localeCompare hs (map (toObject hs) dataRows)\<rparr>,
                errors = []\<rparr>)"
proof -
  let ?cmp = "\<lambda>a b. localeCompare (sortKey (nameColumn hs) a) (sortKey (nameColumn hs) b)"
  have A: "hs = pre @ h # post \<and> (\<forall>g \<in> set pre. \<not> isNameLike g) \<and> isNameLike h
      \<longrightarrow> nameColumn hs = h"
    using nameColumn_first_match by blast
  have B: "hs \<noteq> [] \<and> (\<forall>g \<in> set hs. \<not> isNameLike g) \<longrightarrow> nameColumn hs = hd hs"
    using nameColumn_fallback by blast
  have C: "mset (sortedData localeCompare hs ds) = mset ds"
    by (simp add: sortedData_def mset_sort_by)
  have D: "consistentComparator localeCompare
      \<longrightarrow> sorted_wrt (\<lambda>a b. ?cmp a b \<le> 0) (sortedData localeCompare hs ds)
          \<and> filter (\<lambda>a. localeCompare (sortKey (nameColumn hs) a) k = 0)
                    (sortedData localeCompare hs ds)
              = filter (\<lambda>a. localeCompare (sortKey (nameColumn hs) a) k = 0) ds"
  proof (rule impI)
    assume c: "consistentComparator localeCompare"
    have s: "sorted_wrt (\<lambda>a b. ?cmp a b \<le> 0) (sort_by ?cmp ds)"
    proof (rule sorted_sort_by)
      fix a b assume "?cmp a b > 0"
      then show "?cmp b a \<le> 0" by (rule consistent_total[OF c])
    next
      fix a b c' assume "?cmp a b \<le> 0" "?cmp b c' \<le> 0"
      then show "?cmp a c' \<le> 0" by (rule consistent_trans[OF c])
    qed
    have f: "filter (\<lambda>a. localeCompare (sortKey (nameColumn hs) a) k = 0) (sort_by ?cmp ds)
        = filter (\<lambda>a. localeCompare (sortKey (nameColumn hs) a) k = 0) ds"
    proof (rule filter_sort_by)
      fix x y
      assume "localeCompare (sortKey (nameColumn hs) x) k = 0"
        "localeCompare (sortKey (nameColumn hs) y) k = 0"
      then show "?cmp x y \<le> 0" by (rule consistent_equivalent[OF c])
    qed
    show "sorted_wrt (\<lambda>a b. ?cmp a b \<le> 0) (sortedData localeCompare hs ds)
          \<and> filter (\<lambda>a. localeCompare (sortKey (nameColumn hs) a) k = 0)
                    (sortedData localeCompare hs ds)
              = filter (\<lambda>a. localeCompare (sortKey (nameColumn hs) a) k = 0) ds"
      using s f by (simp add: sortedData_def)
  qed
  have E: "length (SheetNames wb) \<le> 1 \<and> jsonData wb = map Str hs # dataRows
        \<and> allErrors parsesAsDate (map (toObject hs) dataRows) hs = []
      \<longrightarrow> processFile parsesAsDate localeCompare wb
           = Resolved
               \<lparr>data = Some \<lparr>headers = map Str hs,
                       rows = map (\<lambda>rowObj. map (\<lambda>header. rowObj header) hs)
                                  (sortedData localeCompare hs (map (toObject hs) dataRows)),
                       originalData = sortedData localeCompare hs (map (toObject hs) dataRows)\<rparr>,
                errors = []\<rparr>"
    using processFile_resolves[of wb hs dataRows parsesAsDate localeCompare] by simp
  show ?thesis
    by (rule conjI[OF A conjI[OF B conjI[OF C conjI[OF D E]]]])
qed

text \<open>
  Data that validates without error has no cell that is absent, null or the empty string,
  so the default \<open>|| ''\<close> of the sort key changes the key of exactly two values: the
  number 0 and the boolean false. Every other cell is compared by its lower-cased string.
\<close>

lemma no_errors_no_empty_cell:
  assumes "allErrors pd ds hs = []" "i < length ds" "j < length hs"
  shows "(ds ! i) (hs ! j) \<noteq> Undefined \<and> (ds ! i) (hs ! j) \<noteq> Null
         \<and> (ds ! i) (hs ! j) \<noteq> Str []"
proof (rule ccontr)
  assume "\<not> ?thesis"
  then have b: "(ds ! i) (hs ! j) = Undefined \<or> (ds ! i) (hs ! j) = Null
      \<or> (ds ! i) (hs ! j) = Str []"
    by blast
  have "filter (\<lambda>e. cellAddress e = getCellAddress (int i + 1) (int j))
          (concat (map (\<lambda>i. concat (map (\<lambda>j. validateCell pd (ds ! i) i (hs ! j) j [])
                                          [0..<length hs]))
                       [0..<length ds]))
        = validateCell pd (ds ! i) i (hs ! j) j []"
    by (rule filter_rowByRow[OF assms(2,3)])
  moreover have "concat (map (\<lambda>i. concat (map (\<lambda>j. validateCell pd (ds ! i) i (hs ! j) j [])
                                          [0..<length hs]))
                       [0..<length ds]) = []"
    using assms(1) unfolding allErrors_index by simp
  ultimately have "validateCell pd (ds ! i) i (hs ! j) j [] = []" by simp
  then show False using validateCell_blank[of "ds ! i" "hs ! j", OF b] by simp
qed

lemma sort_key_changed_only_for_zero_and_false:
  assumes "allErrors pd ds hs = []" "i < length ds" "j < length hs"
    and "(ds ! i) (hs ! j) \<noteq> Num 0" "(ds ! i) (hs ! j) \<noteq> Bool False"
  shows "sortKey (hs ! j) (ds ! i) = toLowerCase (toStr ((ds ! i) (hs ! j)))"
proof -
  have "truthy ((ds ! i) (hs ! j))"
    using no_errors_no_empty_cell[OF assms(1-3)] assms(4,5) falsy_cases[of "(ds ! i) (hs ! j)"]
    by auto
  then show ?thesis by (simp add: sortKey_falsy)
qed

text \<open>
  A string of white space only is not blank for the validator, so it reaches the sort, and
  there it is compared as itself and not as the empty string: the rows \<open>"  "\<close> and
  \<open>" "\<close> under \<open>Name\<close> validate without error and come back with the shorter one
  first, where keys that are both empty would leave them in their input order.
\<close>

lemma whitespace_cells_sort_as_themselves:
  "resolvedErrors
       (processFile acceptAllDates codeUnitCompare
          \<lparr>SheetNames = [''Sheet1''], jsonData = [[Str ''Name''], [Str ''  ''], [Str '' '']]\<rparr>)
     = Some []
   \<and> resolvedRows
       (processFile acceptAllDates codeUnitCompare
          \<lparr>SheetNames = [''Sheet1''], jsonData = [[Str ''Name''], [Str ''  ''], [Str '' '']]\<rparr>)
     = Some [[Str '' ''], [Str ''  '']]
   \<and> tableRows [''Name'']
         (claimedSortedData codeUnitCompare [''Name'']
            [toObject [''Name''] [Str ''  ''], toObject [''Name''] [Str '' '']])
       = [[Str ''  ''], [Str '' '']]"
  by code_simp

text \<open>
  C6. The claim sorts the records by the case-folded stringified value of the sort column,
  with only blank and absent values compared as the empty string. The code breaks it where
  that column holds the number 0: the sheet with the one column \<open>Score\<close> and the rows 0
  and -5 validates without error, and \<open>processFile\<close> returns the rows in the order 0, -5,
  because \<open>String(0 || '')\<close> is the empty string; by the stringified values \<open>0\<close> and
  \<open>-5\<close> the order is -5, 0. The row validator, with its test \<open>value === ''\<close>, takes the
  same 0 for a value that is there. The comparator of the evaluation orders strings by code
  units: the empty string first, and \<open>-5\<close> before \<open>0\<close>.
\<close>

theorem zero_sorts_as_empty_string:
  "resolvedErrors (processFile acceptAllDates codeUnitCompare zeroScoreWorkbook) = Some []
   \<and> resolvedRows (processFile acceptAllDates codeUnitCompare zeroScoreWorkbook)
       = Some [[Num 0], [Num (- 5)]]
   \<and> sortKey ''Score'' (toObject [''Score''] [Num 0]) = []
   \<and> toLowerCase (toStr (Num 0)) = ''0''
   \<and> tableRows [''Score'']
         (claimedSortedData codeUnitCompare [''Score'']
            [toObject [''Score''] [Num 0], toObject [''Score''] [Num (- 5)]])
       = [[Num (- 5)], [Num 0]]"
  by code_simp

end
